theory Spec2Isabelle
  imports Main "HOL-Library.Multiset" "HOL-Library.AList"
begin

section \<open>Strings and integers of the interpreter\<close>

text \<open>
  The bot is one Python module, \<^verbatim>\<open>main.py\<close>. Its strings are modelled as
  \<^typ>\<open>string\<close>, one \<^typ>\<open>char\<close> per code point, so the model covers the code
  points 0 to 255; its integers are unbounded and modelled as \<^typ>\<open>int\<close>. The
  interpreter converts between text and integers of at most 4300 decimal digits (its
  default, which the bot does not change); this limit is part of the model. Memory and
  running time are outside it.
\<close>

abbreviation ord :: "char \<Rightarrow> nat" where
  "ord c \<equiv> of_char c"

text \<open>\<^verbatim>\<open>str.isspace\<close> on one code point: what \<^verbatim>\<open>str.strip()\<close> removes.\<close>

definition isspace :: "char \<Rightarrow> bool" where
  "isspace c \<longleftrightarrow> ord c \<in> {9, 10, 11, 12, 13, 28, 29, 30, 31, 32, 133, 160}"

definition strip :: "string \<Rightarrow> string" where
  "strip s = rev (dropWhile isspace (rev (dropWhile isspace s)))"

definition startswith :: "string \<Rightarrow> string \<Rightarrow> bool" where
  "startswith s p \<longleftrightarrow> take (length p) s = p"

text \<open>\<^verbatim>\<open>str.lower()\<close>: the letters A to Z and the capital letters of Latin-1.\<close>

definition lower_char :: "char \<Rightarrow> char" where
  "lower_char c =
     (if (65 \<le> ord c \<and> ord c \<le> 90) \<or> (192 \<le> ord c \<and> ord c \<le> 222 \<and> ord c \<noteq> 215)
      then char_of (ord c + 32) else c)"

definition lower :: "string \<Rightarrow> string" where
  "lower s = map lower_char s"

text \<open>\<^verbatim>\<open>s.split(sep)\<close> for a separator of one character: the pieces between the
  separators, one more than there are separators.\<close>

fun split :: "char \<Rightarrow> string \<Rightarrow> string list" where
  "split sep [] = [[]]"
| "split sep (c # cs) =
     (if c = sep then [] # split sep cs
      else (c # hd (split sep cs)) # tl (split sep cs))"

text \<open>
  The messages of the \<^verbatim>\<open>ValueError\<close>s of the dice roller: its own
  \<^verbatim>\<open>Dice expression must be in NdM format.\<close> and
  \<^verbatim>\<open>Number of dice and sides must be positive.\<close>, and the interpreter's
  \<^verbatim>\<open>invalid literal for int() with base 10:\<close> followed by the offending text and
  \<^verbatim>\<open>Exceeds the limit (4300 digits) for integer string conversion: value has ... digits\<close>
  with the number of digits found, or, when it is an integer of more than 4300 digits
  that is turned into text, the same without a number of digits.
\<close>

datatype value_error =
  Not_NdM_format | Invalid_literal string | Exceeds_limit nat | Not_positive
  | Text_exceeds_limit

text \<open>
  The literals that \<^verbatim>\<open>int(s)\<close> reads in base 10: surrounding whitespace is skipped
  (the six ASCII blanks, and the two blanks of Latin-1, but not the separators 28 to 31
  that \<^verbatim>\<open>strip\<close> removes), then an optional sign, then digits, where one
  underscore may stand between two digits. Anything else is no literal, here
  \<^term>\<open>None\<close>.
\<close>

definition int_blank :: "char \<Rightarrow> bool" where
  "int_blank c \<longleftrightarrow> ord c \<in> {9, 10, 11, 12, 13, 32, 133, 160}"

definition is_digit :: "char \<Rightarrow> bool" where
  "is_digit c \<longleftrightarrow> 48 \<le> ord c \<and> ord c \<le> 57"

definition digit_val :: "char \<Rightarrow> nat" where
  "digit_val c = ord c - 48"

fun digits_value :: "nat \<Rightarrow> string \<Rightarrow> nat option" where
  "digits_value acc [] = Some acc"
| "digits_value acc [c] = (if is_digit c then Some (10 * acc + digit_val c) else None)"
| "digits_value acc (c # d # ds) =
     (if is_digit c then digits_value (10 * acc + digit_val c) (d # ds)
      else if ord c = 95 \<and> is_digit d then digits_value (10 * acc + digit_val d) ds
      else None)"

definition unsigned_literal :: "string \<Rightarrow> nat option" where
  "unsigned_literal s =
     (case s of [] \<Rightarrow> None
      | c # cs \<Rightarrow> if is_digit c then digits_value (digit_val c) cs else None)"

definition int_literal :: "string \<Rightarrow> int option" where
  "int_literal s =
     (let t = rev (dropWhile int_blank (rev (dropWhile int_blank s)))
      in case t of [] \<Rightarrow> None
         | c # cs \<Rightarrow>
             if ord c = 45 then map_option (\<lambda>n. - int n) (unsigned_literal cs)
             else if ord c = 43 then map_option int (unsigned_literal cs)
             else map_option int (unsigned_literal t))"

text \<open>
  \<^verbatim>\<open>int(s)\<close> scans, after the leading blanks and the sign, the digits and
  underscores that follow. When these are well separated and have more than 4300
  digits it raises the error of the limit, whatever comes after them; otherwise it
  returns the integer of the literal, or raises the error of an invalid literal,
  naming \<open>s\<close>.
\<close>

definition int_max_str_digits :: nat where
  "int_max_str_digits = 4300"

definition scanned :: "string \<Rightarrow> string" where
  "scanned s =
     (let t = dropWhile int_blank s;
          u = (case t of [] \<Rightarrow> [] | c # cs \<Rightarrow> if ord c = 45 \<or> ord c = 43 then cs else t)
      in takeWhile (\<lambda>c. is_digit c \<or> ord c = 95) u)"

definition over_limit :: "string \<Rightarrow> bool" where
  "over_limit s \<longleftrightarrow>
     unsigned_literal (scanned s) \<noteq> None
     \<and> int_max_str_digits < length (filter is_digit (scanned s))"

definition py_int :: "string \<Rightarrow> value_error + int" where
  "py_int s =
     (if over_limit s then Inl (Exceeds_limit (length (filter is_digit (scanned s))))
      else case int_literal s of
             None \<Rightarrow> Inl (Invalid_literal s)
           | Some i \<Rightarrow> Inr i)"

text \<open>
  The decimal numeral of an integer: its digits, after a minus sign when negative. It is
  what \<^verbatim>\<open>str(n)\<close> returns for an integer of at most 4300 digits, as the 64-bit
  identities of the chat platform are.
\<close>

fun digits :: "nat \<Rightarrow> string" where
  "digits n = (if n < 10 then [char_of (48 + n)] else digits (n div 10) @ [char_of (48 + n mod 10)])"

declare digits.simps [simp del]

definition py_str :: "int \<Rightarrow> string" where
  "py_str i = (if i < 0 then CHR ''-'' # digits (nat (- i)) else digits (nat i))"

text \<open>\<^verbatim>\<open>xs[i]\<close>: a negative index counts from the end, an index out of range raises.\<close>

datatype py_exception = KeyError string | IndexError

definition getitem :: "'a list \<Rightarrow> int \<Rightarrow> py_exception + 'a" where
  "getitem xs i =
     (if 0 \<le> i \<and> i < int (length xs) then Inr (xs ! nat i)
      else if i < 0 \<and> - int (length xs) \<le> i then Inr (xs ! nat (int (length xs) + i))
      else Inl IndexError)"

section \<open>The random source\<close>

text \<open>
  The module \<^verbatim>\<open>random\<close> is the interpreter's; what the bot relies on is that
  \<^verbatim>\<open>randint(a, b)\<close> returns \<^verbatim>\<open>a + randbelow(b - a + 1)\<close> and that
  \<^verbatim>\<open>shuffle\<close> swaps position \<open>i\<close>, from the last down to 1, with position
  \<^verbatim>\<open>randbelow(i + 1)\<close>. A random source is a function \<open>g\<close> giving the raw
  value of the \<open>k\<close>-th draw of one call, reduced below the bound asked for, so every
  outcome of the library is the outcome of some \<open>g\<close>.
\<close>

type_synonym draws = "nat \<Rightarrow> nat"

definition randbelow :: "draws \<Rightarrow> nat \<Rightarrow> nat \<Rightarrow> nat" where
  "randbelow g k n = g k mod n"

definition randint :: "draws \<Rightarrow> nat \<Rightarrow> int \<Rightarrow> int \<Rightarrow> int" where
  "randint g k a b = a + int (randbelow g k (nat (b - a + 1)))"

fun shuffle_loop :: "draws \<Rightarrow> nat \<Rightarrow> nat \<Rightarrow> 'a list \<Rightarrow> 'a list" where
  "shuffle_loop g k 0 xs = xs"
| "shuffle_loop g k (Suc i) xs =
     (let j = randbelow g k (Suc i + 1)
      in shuffle_loop g (Suc k) i (xs[Suc i := xs ! j, j := xs ! Suc i]))"

definition shuffle :: "draws \<Rightarrow> 'a list \<Rightarrow> 'a list" where
  "shuffle g xs = shuffle_loop g 0 (length xs - 1) xs"

section \<open>The dice roller\<close>

text \<open>
  \<^verbatim>\<open>parse_dice_expression\<close> raises \<^verbatim>\<open>ValueError\<close> with the message of its own
  two checks, or with the message of the error that \<^verbatim>\<open>int\<close> raised on a part.
\<close>

definition parse_dice_expression :: "draws \<Rightarrow> string \<Rightarrow> value_error + int list" where
  "parse_dice_expression g expr =
     (let parts = split (CHR ''d'') (lower expr)
      in if length parts \<noteq> 2 then Inl Not_NdM_format
         else case py_int (parts ! 0) of
                Inl err \<Rightarrow> Inl err
              | Inr n \<Rightarrow>
                  (case py_int (parts ! 1) of
                     Inl err \<Rightarrow> Inl err
                   | Inr m \<Rightarrow>
                       if n \<le> 0 \<or> m \<le> 0 then Inl Not_positive
                       else Inr (map (\<lambda>k. randint g k 1 m) [0..<nat n])))"

section \<open>The documents and their files\<close>

text \<open>
  A character is a JSON object. The bot writes the keys \<^verbatim>\<open>name\<close>,
  \<^verbatim>\<open>class\<close> and \<^verbatim>\<open>items\<close> and reads them with defaults
  (\<^verbatim>\<open>get\<close>, \<^verbatim>\<open>setdefault\<close>), so each of them may be absent in an object
  read from a file; \<open>c_other\<close> holds whatever further keys such an object has, which
  the bot never reads. The object is falsy (\<^verbatim>\<open>not char\<close>) when it has no key.
  Values of another JSON type than the bot writes are excluded by the types.
\<close>

record character =
  c_name :: "string option"
  c_class :: "string option"
  c_items :: "string list option"
  c_other :: "(string \<times> string) list"

definition falsy :: "character \<Rightarrow> bool" where
  "falsy c \<longleftrightarrow> c_name c = None \<and> c_class c = None \<and> c_items c = None \<and> c_other c = []"

text \<open>
  \<^verbatim>\<open>characters\<close> is a dictionary from user identities to characters: an
  association list in insertion order (the order \<^verbatim>\<open>values()\<close> lists them in),
  where \<^const>\<open>AList.update\<close> keeps the place of a key already there, as assignment
  to a dictionary does. The keys of a dictionary are distinct.
\<close>

type_synonym characters = "(string \<times> character) list"

record combat =
  ongoing :: "bool option"
  turn_order :: "string list option"
  current_index :: "int option"

definition cleared :: combat where
  "cleared = \<lparr>ongoing = None, turn_order = None, current_index = None\<rparr>"

text \<open>
  A file is absent, or present but failing to open or to parse (\<^verbatim>\<open>open\<close> or
  \<^verbatim>\<open>json.load\<close> raises), or holds a document.
\<close>

datatype 'a stored = Absent | Unreadable | Holds 'a

text \<open>The lines the bot prints: \<^verbatim>\<open>Error loading <file>: ...\<close>,
  \<^verbatim>\<open>Error saving characters: ...\<close>, \<^verbatim>\<open>Error saving combat state: ...\<close>\<close>

datatype printed = Error_loading string | Error_saving_characters | Error_saving_combat

record bot =
  characters :: characters
  combat_state :: combat
  character_file :: "characters stored"
  combat_file :: "combat stored"
  console :: "printed list"

text \<open>
  What the world decides during one call: the random draws, the answer of the completion
  service (\<^term>\<open>Inl\<close> its error), and for each file whether writing it succeeds
  (\<^term>\<open>None\<close>) or raises, leaving the file as given.
\<close>

record env =
  draws_of :: draws
  completion :: "string \<Rightarrow> string + string"
  characters_write :: "characters stored option"
  combat_write :: "combat stored option"

definition CHARACTER_FILE :: string where
  "CHARACTER_FILE = ''character_data.json''"

definition COMBAT_FILE :: string where
  "COMBAT_FILE = ''combat_data.json''"

definition initial :: bot where
  "initial = \<lparr>characters = [], combat_state = cleared, character_file = Absent,
     combat_file = Absent, console = []\<rparr>"

definition load_characters :: "bot \<Rightarrow> bot" where
  "load_characters b =
     (case character_file b of
        Absent \<Rightarrow> b
      | Holds d \<Rightarrow> b\<lparr>characters := d\<rparr>
      | Unreadable \<Rightarrow> b\<lparr>characters := [], console := console b @ [Error_loading CHARACTER_FILE]\<rparr>)"

definition load_combat :: "bot \<Rightarrow> bot" where
  "load_combat b =
     (case combat_file b of
        Absent \<Rightarrow> b
      | Holds d \<Rightarrow> b\<lparr>combat_state := d\<rparr>
      | Unreadable \<Rightarrow> b\<lparr>combat_state := cleared, console := console b @ [Error_loading COMBAT_FILE]\<rparr>)"

definition load_data :: "bot \<Rightarrow> bot" where
  "load_data b = load_combat (load_characters b)"

definition save_characters :: "env \<Rightarrow> bot \<Rightarrow> bot" where
  "save_characters e b =
     (case characters_write e of
        None \<Rightarrow> b\<lparr>character_file := Holds (characters b)\<rparr>
      | Some f \<Rightarrow> b\<lparr>character_file := f, console := console b @ [Error_saving_characters]\<rparr>)"

definition save_combat :: "env \<Rightarrow> bot \<Rightarrow> bot" where
  "save_combat e b =
     (case combat_write e of
        None \<Rightarrow> b\<lparr>combat_file := Holds (combat_state b)\<rparr>
      | Some f \<Rightarrow> b\<lparr>combat_file := f, console := console b @ [Error_saving_combat]\<rparr>)"

section \<open>The commands\<close>

text \<open>
  One constructor for each message the bot sends, in the order of the source:
  the usage line, the answer and the error of \<^verbatim>\<open>!dnd\<close>; the rolls with their total
  and the error of \<^verbatim>\<open>!roll\<close>; \<^verbatim>\<open>Please provide a name for your character.\<close> and
  \<^verbatim>\<open>Character '<name>' created!\<close>; \<^verbatim>\<open>You don't have a character yet. ...\<close> and
  the sheet; \<^verbatim>\<open>Create a character first using !createchar.\<close>,
  \<^verbatim>\<open>Please specify a class.\<close>, \<^verbatim>\<open>Class set to <class> for <name>.\<close>;
  \<^verbatim>\<open>Please specify an item to add.\<close>, \<^verbatim>\<open>Added <item> to <name>'s inventory.\<close>;
  \<^verbatim>\<open>Combat is already in progress.\<close>, \<^verbatim>\<open>No characters exist to start combat.\<close>,
  \<^verbatim>\<open>Combat begins! Turn order: <names> It is now <name>'s turn.\<close>;
  \<^verbatim>\<open>No combat is currently in progress.\<close>, \<^verbatim>\<open>It is now <name>'s turn.\<close>,
  \<^verbatim>\<open>Combat has ended.\<close>
\<close>

datatype reply =
    Provide_action
  | Narration string
  | Error_contacting string
  | You_rolled "int list" int
  | Roll_error value_error
  | Provide_name
  | Character_created string
  | No_character_yet
  | Sheet string string string
  | Create_character_first
  | Specify_class
  | Class_set string string
  | Specify_item
  | Added_item string string
  | Combat_already_in_progress
  | No_characters_exist
  | Combat_begins "string list" string
  | No_combat_in_progress
  | Now_turn string
  | Combat_ended

text \<open>A call of the handler sends one message, or none, or ends in an exception that
  the handler does not catch.\<close>

datatype outcome = No_reply | Reply reply | Raised py_exception

fun join :: "string \<Rightarrow> string list \<Rightarrow> string" where
  "join sep [] = []"
| "join sep [x] = x"
| "join sep (x # y # ys) = x @ sep @ join sep (y # ys)"

definition dnd :: "env \<Rightarrow> string \<Rightarrow> bot \<Rightarrow> bot \<times> outcome" where
  "dnd e prompt b =
     (if prompt = [] then (b, Reply Provide_action)
      else case completion e prompt of
             Inr content \<Rightarrow> (b, Reply (Narration (strip content)))
           | Inl err \<Rightarrow> (b, Reply (Error_contacting err)))"

text \<open>The reply of \<^verbatim>\<open>!roll\<close> is formatted inside the \<^verbatim>\<open>try\<close> of the handler: each
  roll has at most the digits of the number of sides, but their total may have more than
  4300, and then formatting it raises the \<^verbatim>\<open>ValueError\<close> that the handler reports.\<close>

definition roll :: "env \<Rightarrow> string \<Rightarrow> bot \<Rightarrow> bot \<times> outcome" where
  "roll e expr b =
     (case parse_dice_expression (draws_of e) expr of
        Inr rolls \<Rightarrow>
          if 10 ^ int_max_str_digits \<le> sum_list rolls
          then (b, Reply (Roll_error Text_exceeds_limit))
          else (b, Reply (You_rolled rolls (sum_list rolls)))
      | Inl err \<Rightarrow> (b, Reply (Roll_error err)))"

definition createchar :: "env \<Rightarrow> string \<Rightarrow> string \<Rightarrow> bot \<Rightarrow> bot \<times> outcome" where
  "createchar e name user_id b =
     (if name = [] then (b, Reply Provide_name)
      else (save_characters e
              (b\<lparr>characters := AList.update user_id
                    \<lparr>c_name = Some name, c_class = Some [], c_items = Some [], c_other = []\<rparr>
                    (characters b)\<rparr>),
            Reply (Character_created name)))"

definition sheet :: "string \<Rightarrow> bot \<Rightarrow> bot \<times> outcome" where
  "sheet user_id b =
     (case map_of (characters b) user_id of
        None \<Rightarrow> (b, Reply No_character_yet)
      | Some char \<Rightarrow>
          if falsy char then (b, Reply No_character_yet)
          else let name = (case c_name char of None \<Rightarrow> ''Unnamed'' | Some n \<Rightarrow> n);
                   char_class = (case c_class char of None \<Rightarrow> ''Unassigned''
                                 | Some k \<Rightarrow> if k = [] then ''Unassigned'' else k);
                   items = (case c_items char of None \<Rightarrow> [] | Some xs \<Rightarrow> xs);
                   item_list = (if items = [] then ''No items'' else join '', '' items)
               in (b, Reply (Sheet name char_class item_list)))"

definition setclass :: "env \<Rightarrow> string \<Rightarrow> string \<Rightarrow> bot \<Rightarrow> bot \<times> outcome" where
  "setclass e class_name user_id b =
     (case map_of (characters b) user_id of
        None \<Rightarrow> (b, Reply Create_character_first)
      | Some char \<Rightarrow>
          if falsy char then (b, Reply Create_character_first)
          else if class_name = [] then (b, Reply Specify_class)
          else let b' = save_characters e
                          (b\<lparr>characters := AList.update user_id
                                (char\<lparr>c_class := Some class_name\<rparr>) (characters b)\<rparr>)
               in case c_name char of
                    None \<Rightarrow> (b', Raised (KeyError ''name''))
                  | Some n \<Rightarrow> (b', Reply (Class_set class_name n)))"

definition additem :: "env \<Rightarrow> string \<Rightarrow> string \<Rightarrow> bot \<Rightarrow> bot \<times> outcome" where
  "additem e item_name user_id b =
     (case map_of (characters b) user_id of
        None \<Rightarrow> (b, Reply Create_character_first)
      | Some char \<Rightarrow>
          if falsy char then (b, Reply Create_character_first)
          else if item_name = [] then (b, Reply Specify_item)
          else let items = (case c_items char of None \<Rightarrow> [] | Some xs \<Rightarrow> xs);
                   b' = save_characters e
                          (b\<lparr>characters := AList.update user_id
                                (char\<lparr>c_items := Some (items @ [item_name])\<rparr>) (characters b)\<rparr>)
               in case c_name char of
                    None \<Rightarrow> (b', Raised (KeyError ''name''))
                  | Some n \<Rightarrow> (b', Reply (Added_item item_name n)))"

text \<open>\<^verbatim>\<open>[c["name"] for c in characters.values()]\<close>: a character without a name
  raises \<^verbatim>\<open>KeyError\<close>.\<close>

fun names_of :: "character list \<Rightarrow> py_exception + string list" where
  "names_of [] = Inr []"
| "names_of (c # cs) =
     (case c_name c of
        None \<Rightarrow> Inl (KeyError ''name'')
      | Some n \<Rightarrow> (case names_of cs of Inl x \<Rightarrow> Inl x | Inr ns \<Rightarrow> Inr (n # ns)))"

definition active :: "combat \<Rightarrow> bool" where
  "active cs \<longleftrightarrow> ongoing cs = Some True"

definition startcombat :: "env \<Rightarrow> bot \<Rightarrow> bot \<times> outcome" where
  "startcombat e b =
     (if active (combat_state b) then (b, Reply Combat_already_in_progress)
      else case names_of (map snd (characters b)) of
             Inl x \<Rightarrow> (b, Raised x)
           | Inr names \<Rightarrow>
               if names = [] then (b, Reply No_characters_exist)
               else let order = shuffle (draws_of e) names;
                        b' = save_combat e
                               (b\<lparr>combat_state := (combat_state b)
                                     \<lparr>ongoing := Some True, turn_order := Some order,
                                      current_index := Some 0\<rparr>\<rparr>)
                    in case getitem order 0 of
                         Inl x \<Rightarrow> (b', Raised x)
                       | Inr n \<Rightarrow> (b', Reply (Combat_begins order n)))"

definition endturn :: "env \<Rightarrow> bot \<Rightarrow> bot \<times> outcome" where
  "endturn e b =
     (if \<not> active (combat_state b) then (b, Reply No_combat_in_progress)
      else let order = (case turn_order (combat_state b) of None \<Rightarrow> [] | Some xs \<Rightarrow> xs);
               idx = (case current_index (combat_state b) of None \<Rightarrow> 0 | Some i \<Rightarrow> i);
               idx' = (if order \<noteq> [] then (idx + 1) mod int (length order) else 0);
               b' = save_combat e (b\<lparr>combat_state := (combat_state b)\<lparr>current_index := Some idx'\<rparr>\<rparr>)
           in case getitem order idx' of
                Inl x \<Rightarrow> (b', Raised x)
              | Inr n \<Rightarrow> (b', Reply (Now_turn n)))"

definition endcombat :: "env \<Rightarrow> bot \<Rightarrow> bot \<times> outcome" where
  "endcombat e b =
     (if \<not> active (combat_state b) then (b, Reply No_combat_in_progress)
      else (save_combat e (b\<lparr>combat_state := cleared\<rparr>), Reply Combat_ended))"

text \<open>A message as the chat platform delivers it: whether the bot itself wrote it, the
  numeric identity of its author, and its text.\<close>

record message =
  from_self :: bool
  author_id :: int
  text_of :: string

definition on_message :: "env \<Rightarrow> message \<Rightarrow> bot \<Rightarrow> bot \<times> outcome" where
  "on_message e m b =
     (if from_self m then (b, No_reply)
      else let content = strip (text_of m); user_id = py_str (author_id m)
           in if startswith content ''!dnd'' then dnd e (strip (drop 4 content)) b
              else if startswith content ''!roll'' then roll e (strip (drop 5 content)) b
              else if startswith content ''!createchar''
                then createchar e (strip (drop (length ''!createchar'') content)) user_id b
              else if startswith content ''!sheet'' then sheet user_id b
              else if startswith content ''!setclass''
                then setclass e (strip (drop (length ''!setclass'') content)) user_id b
              else if startswith content ''!additem''
                then additem e (strip (drop (length ''!additem'') content)) user_id b
              else if startswith content ''!startcombat'' then startcombat e b
              else if startswith content ''!endturn'' then endturn e b
              else if startswith content ''!endcombat'' then endcombat e b
              else (b, No_reply))"

text \<open>The handler run on a sequence of messages, each with its own environment;
  an uncaught exception ends one call, not the process.\<close>

fun run :: "(env \<times> message) list \<Rightarrow> bot \<Rightarrow> bot" where
  "run [] b = b"
| "run ((e, m) # rest) b = run rest (fst (on_message e m b))"

text \<open>\<^verbatim>\<open>!endturn\<close> sent once for each environment of the list, with the outcomes.\<close>

fun endturns :: "env list \<Rightarrow> bot \<Rightarrow> bot \<times> outcome list" where
  "endturns [] b = (b, [])"
| "endturns (e # es) b =
     (case endturns es (fst (endturn e b)) of (b', outs) \<Rightarrow> (b', snd (endturn e b) # outs))"

text \<open>The invariant of the combat record.\<close>

definition combat_ok :: "combat \<Rightarrow> bool" where
  "combat_ok cs \<longleftrightarrow>
     (if active cs
      then (case turn_order cs of
              None \<Rightarrow> False
            | Some order \<Rightarrow>
                order \<noteq> [] \<and>
                (case current_index cs of None \<Rightarrow> False | Some i \<Rightarrow> 0 \<le> i \<and> i < int (length order)))
      else True)"

text \<open>
  The shape that the specification asks of a dice expression, in its words: the text is
  \<^verbatim>\<open><N>d<M>\<close>, the letter in either case, where \<open>N\<close> and \<open>M\<close> parse as
  positive integers.
\<close>

definition parses_as_positive :: "string \<Rightarrow> bool" where
  "parses_as_positive s \<longleftrightarrow> (case py_int s of Inl err \<Rightarrow> False | Inr n \<Rightarrow> 0 < n)"

definition spec_matches_NdM :: "string \<Rightarrow> bool" where
  "spec_matches_NdM s \<longleftrightarrow>
     (\<exists>i\<in>{0..<length s}.
        (s ! i = CHR ''d'' \<or> s ! i = CHR ''D'')
        \<and> parses_as_positive (take i s) \<and> parses_as_positive (drop (Suc i) s))"

text \<open>A small session on which the theorems are exercised: an environment in which every
  write succeeds, and two users who each created a character.\<close>

definition quiet :: env where
  "quiet = \<lparr>draws_of = (\<lambda>k. 3 * k + 1), completion = (\<lambda>prompt. Inr prompt),
     characters_write = None, combat_write = None\<rparr>"

definition says :: "int \<Rightarrow> string \<Rightarrow> message" where
  "says u t = \<lparr>from_self = False, author_id = u, text_of = t\<rparr>"

definition two_characters :: bot where
  "two_characters =
     run [(quiet, says 1 ''!createchar Bram''), (quiet, says 2 ''!createchar Zel'')] initial"

text \<open>An environment in which no write succeeds and no file comes to exist, and the bot
  started on a combat file that was edited by hand: a combat going on with nobody in it.\<close>

definition read_only :: env where
  "read_only = quiet\<lparr>characters_write := Some Absent, combat_write := Some Absent\<rparr>"

definition tampered :: bot where
  "tampered = load_data (initial\<lparr>combat_file :=
     Holds \<lparr>ongoing = Some True, turn_order = Some [], current_index = Some 2\<rparr>\<rparr>)"

text \<open>The bot after a creation that it could not save, and the bot started on two files
  that do not parse.\<close>

definition unsaved :: bot where
  "unsaved = fst (on_message read_only (says 1 ''!createchar Bram'') (load_data initial))"

definition corrupt :: bot where
  "corrupt = initial\<lparr>character_file := Unreadable, combat_file := Unreadable\<rparr>"

text \<open>A combat that is going on has characters.\<close>

definition staffed :: "bot \<Rightarrow> bool" where
  "staffed b \<longleftrightarrow> (active (combat_state b) \<longrightarrow> characters b \<noteq> [])"

section \<open>Properties\<close>

subsection \<open>The dice roller\<close>

text \<open>The decimal digits of a number read back as that number.\<close>

lemma ord_char_of: "n < 256 \<Longrightarrow> ord (char_of n) = n"
  by (simp add: of_char_of)

lemma char_of_eq_iff_ord: "n < 256 \<Longrightarrow> char_of n = c \<longleftrightarrow> n = ord c"
  by (metis of_char_of char_of_char mod_less)

lemma digits_small: "n < 10 \<Longrightarrow> digits n = [char_of (48 + n)]"
  by (simp add: digits.simps [of n])

lemma digits_large: "\<not> n < 10 \<Longrightarrow> digits n = digits (n div 10) @ [char_of (48 + n mod 10)]"
  by (simp add: digits.simps [of n])


lemma digits_are_digits: "c \<in> set (digits n) \<Longrightarrow> is_digit c"
proof (induction n arbitrary: c rule: digits.induct)
  case (1 n)
  show ?case
  proof (cases "n < 10")
    case True
    with "1.prems" show ?thesis by (simp add: digits.simps [of n] is_digit_def ord_char_of)
  next
    case False
    have "n mod 10 < 10" by simp
    then have "is_digit (char_of (48 + n mod 10))" by (simp add: is_digit_def ord_char_of)
    with False "1.prems" "1.IH" show ?thesis
      by (auto simp add: digits.simps [of n])
  qed
qed

lemma digits_nonempty: "digits n \<noteq> []"
  by (simp add: digits.simps [of n])

lemma digits_value_all_digits:
  "\<forall>c\<in>set cs. is_digit c \<Longrightarrow>
   digits_value acc cs = Some (foldl (\<lambda>a c. 10 * a + digit_val c) acc cs)"
  by (induction acc cs rule: digits_value.induct) simp_all

lemma unsigned_literal_all_digits:
  "cs \<noteq> [] \<Longrightarrow> \<forall>c\<in>set cs. is_digit c \<Longrightarrow>
   unsigned_literal cs = Some (foldl (\<lambda>a c. 10 * a + digit_val c) 0 cs)"
  by (cases cs) (simp_all add: unsigned_literal_def digits_value_all_digits)

lemma foldl_digits: "foldl (\<lambda>a c. 10 * a + digit_val c) 0 (digits n) = n"
proof (induction n rule: digits.induct)
  case (1 n)
  show ?case
  proof (cases "n < 10")
    case True
    then show ?thesis by (simp add: digits.simps [of n] digit_val_def ord_char_of)
  next
    case False
    have "n mod 10 < 10" by simp
    then have "digit_val (char_of (48 + n mod 10)) = n mod 10"
      by (simp add: digit_val_def ord_char_of)
    with False "1.IH" show ?thesis
      by (simp add: digits.simps [of n])
  qed
qed

lemma unsigned_literal_digits: "unsigned_literal (digits n) = Some n"
  using unsigned_literal_all_digits [of "digits n"] digits_are_digits digits_nonempty
  by (simp add: foldl_digits)

lemma split_no_sep: "sep \<notin> set s \<Longrightarrow> split sep s = [s]"
  by (induction s) auto

lemma split_at_sep: "sep \<notin> set a \<Longrightarrow> split sep (a @ sep # b) = a # split sep b"
  by (induction a) auto


lemma is_digit_lower: "is_digit c \<Longrightarrow> lower_char c = c"
  by (auto simp add: is_digit_def lower_char_def)






lemma length_digits: "n < 10 ^ k \<Longrightarrow> 0 < k \<Longrightarrow> length (digits n) \<le> k"
proof (induction n arbitrary: k rule: digits.induct)
  case (1 n)
  show ?case
  proof (cases "n < 10")
    case True
    with "1.prems" show ?thesis by (simp add: digits_small)
  next
    case False
    from "1.prems" obtain j where k: "k = Suc j" by (cases k) auto
    with "1.prems" have "n div 10 < 10 ^ j" by (simp add: div_less_iff_less_mult mult.commute)
    moreover from False k "1.prems" have "0 < j" by (cases j) auto
    ultimately have "length (digits (n div 10)) \<le> j" using False by (intro "1.IH")
    with False k show ?thesis by (simp add: digits_large)
  qed
qed



text \<open>The identities of the platform are far below the limit.\<close>

lemma py_str_identity_short: "0 \<le> i \<Longrightarrow> i < 2 ^ 64 \<Longrightarrow> length (py_str i) \<le> 20"
proof -
  assume "0 \<le> i" "i < 2 ^ 64"
  then have "nat i < 10 ^ 20" by (simp add: nat_less_iff)
  then have "length (digits (nat i)) \<le> 20" by (rule length_digits) simp
  with \<open>0 \<le> i\<close> show ?thesis by (simp add: py_str_def)
qed












text \<open>Lower case does not change what \<^verbatim>\<open>int\<close> reads, and a text that splits in two at the letter has the letter in it.\<close>

lemma split_nonempty: "split sep t \<noteq> []"
  by (cases t) simp_all

lemma split_one: "split sep t = [b] \<Longrightarrow> t = b"
proof (induction t arbitrary: b)
  case Nil
  then show ?case by simp
next
  case (Cons c cs)
  from Cons.prems split_nonempty [of sep cs] have ne: "c \<noteq> sep" by (auto split: if_splits)
  with Cons.prems have "b = c # hd (split sep cs)" and "tl (split sep cs) = []" by auto
  moreover from this split_nonempty [of sep cs] have "split sep cs = [hd (split sep cs)]"
    by (cases "split sep cs") auto
  ultimately show ?case using Cons.IH by auto
qed

lemma split_two: "split sep t = [a, b] \<Longrightarrow> t = a @ sep # b"
proof (induction t arbitrary: a)
  case Nil
  then show ?case by simp
next
  case (Cons c cs)
  show ?case
  proof (cases "c = sep")
    case True
    with Cons.prems have "a = []" "split sep cs = [b]" by auto
    with True show ?thesis by (auto dest: split_one)
  next
    case False
    with Cons.prems have a: "a = c # hd (split sep cs)" and "tl (split sep cs) = [b]" by auto
    with split_nonempty [of sep cs] have "split sep cs = [hd (split sep cs), b]"
      by (cases "split sep cs") auto
    then have "cs = hd (split sep cs) @ sep # b" by (rule Cons.IH)
    with a show ?thesis by simp
  qed
qed

lemma ord_lower_char:
  "ord (lower_char c) =
     (if (65 \<le> ord c \<and> ord c \<le> 90) \<or> (192 \<le> ord c \<and> ord c \<le> 222 \<and> ord c \<noteq> 215)
      then ord c + 32 else ord c)"
  by (auto simp add: lower_char_def ord_char_of)

lemma int_blank_lower: "int_blank (lower_char c) = int_blank c"
  by (auto simp add: int_blank_def ord_lower_char)

lemma is_digit_lower_iff: "is_digit (lower_char c) = is_digit c"
  by (auto simp add: is_digit_def ord_lower_char)

lemma digit_val_lower: "is_digit c \<Longrightarrow> digit_val (lower_char c) = digit_val c"
  by (simp add: is_digit_lower)

lemma underscore_lower: "ord (lower_char c) = 95 \<longleftrightarrow> ord c = 95"
  by (auto simp add: ord_lower_char)

lemma sign_lower: "(ord (lower_char c) = 45 \<longleftrightarrow> ord c = 45) \<and> (ord (lower_char c) = 43 \<longleftrightarrow> ord c = 43)"
  by (auto simp add: ord_lower_char)

lemma lower_char_d: "lower_char c = CHR ''d'' \<Longrightarrow> c = CHR ''d'' \<or> c = CHR ''D''"
proof -
  assume "lower_char c = CHR ''d''"
  then have "ord (lower_char c) = 100" by simp
  then have "ord c = 100 \<or> ord c = 68" by (auto simp add: ord_lower_char split: if_splits)
  then have "ord c = ord (CHR ''d'') \<or> ord c = ord (CHR ''D'')" by simp
  then show ?thesis by (simp only: of_char_eq_iff)
qed

lemma digits_value_lower: "digits_value acc (map lower_char s) = digits_value acc s"
  by (induction acc s rule: digits_value.induct)
     (simp_all add: is_digit_lower_iff digit_val_lower underscore_lower)

lemma unsigned_literal_lower: "unsigned_literal (map lower_char s) = unsigned_literal s"
  by (cases s) (simp_all add: unsigned_literal_def is_digit_lower_iff digit_val_lower digits_value_lower)

lemma int_strip_lower:
  "rev (dropWhile int_blank (rev (dropWhile int_blank (map lower_char s))))
   = map lower_char (rev (dropWhile int_blank (rev (dropWhile int_blank s))))"
proof -
  have "int_blank \<circ> lower_char = int_blank" by (rule ext) (simp add: int_blank_lower)
  then show ?thesis by (simp add: dropWhile_map rev_map)
qed

lemma int_literal_lower: "int_literal (lower s) = int_literal s"
proof -
  define t where "t = rev (dropWhile int_blank (rev (dropWhile int_blank s)))"
  have 1: "int_literal s =
      (case t of [] \<Rightarrow> None
       | c # cs \<Rightarrow>
           if ord c = 45 then map_option (\<lambda>n. - int n) (unsigned_literal cs)
           else if ord c = 43 then map_option int (unsigned_literal cs)
           else map_option int (unsigned_literal t))"
    by (simp only: int_literal_def Let_def t_def)
  have 2: "int_literal (lower s) =
      (case map lower_char t of [] \<Rightarrow> None
       | c # cs \<Rightarrow>
           if ord c = 45 then map_option (\<lambda>n. - int n) (unsigned_literal cs)
           else if ord c = 43 then map_option int (unsigned_literal cs)
           else map_option int (unsigned_literal (map lower_char t)))"
    by (simp only: int_literal_def Let_def lower_def int_strip_lower t_def)
  show ?thesis
  proof (cases t)
    case Nil
    with 1 2 show ?thesis by simp
  next
    case (Cons c cs)
    with 1 2 show ?thesis
      using unsigned_literal_lower [of cs] unsigned_literal_lower [of "c # cs"]
      by (simp add: sign_lower)
  qed
qed

text \<open>Nor does lower case change what \<^verbatim>\<open>int\<close> scans and counts.\<close>

lemma scanned_lower: "scanned (map lower_char s) = map lower_char (scanned s)"
proof -
  have b: "int_blank \<circ> lower_char = int_blank"
    by (rule ext) (simp add: int_blank_lower)
  have p: "(\<lambda>c. is_digit c \<or> ord c = 95) \<circ> lower_char = (\<lambda>c. is_digit c \<or> ord c = 95)"
    by (rule ext) (simp add: is_digit_lower_iff underscore_lower)
  define t where "t = dropWhile int_blank s"
  have 1: "scanned s =
      takeWhile (\<lambda>c. is_digit c \<or> ord c = 95)
        (case t of [] \<Rightarrow> [] | c # cs \<Rightarrow> if ord c = 45 \<or> ord c = 43 then cs else t)"
    by (simp only: scanned_def Let_def t_def)
  have "dropWhile int_blank (map lower_char s) = map lower_char t"
    by (simp add: dropWhile_map b t_def)
  then have 2: "scanned (map lower_char s) =
      takeWhile (\<lambda>c. is_digit c \<or> ord c = 95)
        (case map lower_char t of [] \<Rightarrow> []
         | c # cs \<Rightarrow> if ord c = 45 \<or> ord c = 43 then cs else map lower_char t)"
    by (simp only: scanned_def Let_def)
  define u where "u = (case t of [] \<Rightarrow> [] | c # cs \<Rightarrow> if ord c = 45 \<or> ord c = 43 then cs else t)"
  have 3: "(case map lower_char t of [] \<Rightarrow> []
         | c # cs \<Rightarrow> if ord c = 45 \<or> ord c = 43 then cs else map lower_char t)
      = map lower_char u"
    by (cases t) (simp_all add: u_def sign_lower)
  have "scanned (map lower_char s) = takeWhile (\<lambda>c. is_digit c \<or> ord c = 95) (map lower_char u)"
    by (simp only: 2 3)
  also have "\<dots> = map lower_char (takeWhile (\<lambda>c. is_digit c \<or> ord c = 95) u)"
    by (simp only: takeWhile_map p)
  also have "\<dots> = map lower_char (scanned s)"
    by (simp only: 1 u_def)
  finally show ?thesis .
qed

lemma over_limit_lower: "over_limit (lower s) = over_limit s"
proof -
  have d: "is_digit \<circ> lower_char = is_digit"
    by (rule ext) (simp add: is_digit_lower_iff)
  have "length (filter is_digit (map lower_char (scanned s))) = length (filter is_digit (scanned s))"
    by (simp add: filter_map d)
  then show ?thesis
    by (simp add: over_limit_def lower_def scanned_lower unsigned_literal_lower)
qed

lemma py_int_Inr_iff: "py_int s = Inr i \<longleftrightarrow> \<not> over_limit s \<and> int_literal s = Some i"
  by (auto simp add: py_int_def split: option.splits)

lemma py_int_lower_Inr: "py_int (lower s) = Inr i \<longleftrightarrow> py_int s = Inr i"
  by (simp add: py_int_Inr_iff over_limit_lower int_literal_lower)

lemma length_two: "length xs = 2 \<Longrightarrow> \<exists>a b. xs = [a, b]"
  by (cases xs; cases "tl xs") auto

lemma parse_success_parts:
  assumes "parse_dice_expression g s = Inr rolls"
  shows "\<exists>a b n m. split (CHR ''d'') (lower s) = [a, b] \<and> py_int a = Inr n \<and> py_int b = Inr m
           \<and> 0 < n \<and> 0 < m"
proof -
  from assms have "length (split (CHR ''d'') (lower s)) = 2"
    by (auto simp add: parse_dice_expression_def Let_def split: if_splits)
  then obtain a b where ab: "split (CHR ''d'') (lower s) = [a, b]"
    using length_two by blast
  with assms show ?thesis
    by (auto simp add: parse_dice_expression_def Let_def split: sum.splits if_splits)
qed

lemma parse_success_matches:
  assumes "parse_dice_expression g s = Inr rolls"
  shows "spec_matches_NdM s"
proof -
  from parse_success_parts [OF assms] obtain a b n m where
    sp: "split (CHR ''d'') (lower s) = [a, b]" and
    n: "py_int a = Inr n" "0 < n" and m: "py_int b = Inr m" "0 < m" by blast
  from sp have "map lower_char s = a @ CHR ''d'' # b"
    by (simp add: lower_def [symmetric] split_two)
  then obtain a' c b' where s: "s = a' @ c # b'" and a: "a = map lower_char a'"
    and c: "lower_char c = CHR ''d''" and b: "b = map lower_char b'"
    by (auto simp add: map_eq_append_conv map_eq_Cons_conv)
  from a n(1) have "py_int a' = Inr n"
    using py_int_lower_Inr [of a' n] by (simp add: lower_def)
  with n(2) have "parses_as_positive a'"
    by (simp add: parses_as_positive_def)
  moreover from b m(1) have "py_int b' = Inr m"
    using py_int_lower_Inr [of b' m] by (simp add: lower_def)
  with m(2) have "parses_as_positive b'"
    by (simp add: parses_as_positive_def)
  moreover from c have "c = CHR ''d'' \<or> c = CHR ''D''" by (rule lower_char_d)
  ultimately have "(s ! length a' = CHR ''d'' \<or> s ! length a' = CHR ''D'')
      \<and> parses_as_positive (take (length a') s) \<and> parses_as_positive (drop (Suc (length a')) s)"
    using s by simp
  moreover have "length a' \<in> {0..<length s}" using s by simp
  ultimately show ?thesis unfolding spec_matches_NdM_def by (rule_tac bexI)
qed

text \<open>
  Claim C4. Every expression that does not have the shape \<^verbatim>\<open><N>d<M>\<close>, the
  letter in either case and both parts parsing as positive integers, makes the roller
  fail with a \<^verbatim>\<open>ValueError\<close>, whose value stands for its message; \<^verbatim>\<open>d20\<close>,
  \<^verbatim>\<open>2d\<close>, \<^verbatim>\<open>2x20\<close>, \<^verbatim>\<open>-1d6\<close> and \<^verbatim>\<open>2d0\<close> all fail, the first
  two on a part that is no integer literal, the third on its shape, the last two on
  a part that is not positive.
\<close>

theorem C4_roll_rejects:
  "(\<not> spec_matches_NdM s \<longrightarrow> (\<exists>err. parse_dice_expression g s = Inl err))
   \<and> parse_dice_expression g ''d20'' = Inl (Invalid_literal [])
   \<and> parse_dice_expression g ''2d'' = Inl (Invalid_literal [])
   \<and> parse_dice_expression g ''2x20'' = Inl Not_NdM_format
   \<and> parse_dice_expression g ''-1d6'' = Inl Not_positive
   \<and> parse_dice_expression g ''2d0'' = Inl Not_positive"
proof (intro conjI impI)
  assume "\<not> spec_matches_NdM s"
  then show "\<exists>err. parse_dice_expression g s = Inl err"
    using parse_success_matches [of g s] by (cases "parse_dice_expression g s") auto
next
  show "parse_dice_expression g ''d20'' = Inl (Invalid_literal [])" by code_simp
  show "parse_dice_expression g ''2d'' = Inl (Invalid_literal [])" by code_simp
  show "parse_dice_expression g ''2x20'' = Inl Not_NdM_format" by code_simp
  show "parse_dice_expression g ''-1d6'' = Inl Not_positive" by code_simp
  show "parse_dice_expression g ''2d0'' = Inl Not_positive" by code_simp
qed

theorem C4_roll_rejects_witness:
  "\<not> spec_matches_NdM ''2x20'' \<and> (\<exists>err. parse_dice_expression (\<lambda>k. k) ''2x20'' = Inl err)"
proof -
  have "\<not> spec_matches_NdM ''2x20''" by code_simp
  with C4_roll_rejects [of "''2x20''" "\<lambda>k. k"] show ?thesis by blast
qed

subsection \<open>Combat\<close>

text \<open>The shuffle permutes.\<close>

lemma shuffle_loop_mset: "i < length xs \<Longrightarrow> mset (shuffle_loop g k i xs) = mset xs"
proof (induction i arbitrary: k xs)
  case 0
  then show ?case by simp
next
  case (Suc i)
  let ?j = "randbelow g k (Suc i + 1)"
  have "?j < Suc i + 1" by (simp add: randbelow_def)
  with Suc.prems have j: "?j < length xs" by simp
  let ?ys = "xs[Suc i := xs ! ?j, ?j := xs ! Suc i]"
  have "mset ?ys = mset xs" using Suc.prems j by (simp add: mset_swap)
  moreover have "mset (shuffle_loop g (Suc k) i ?ys) = mset ?ys"
    using Suc.prems by (intro Suc.IH) simp
  ultimately show ?case by (simp add: Let_def)
qed

lemma shuffle_mset: "mset (shuffle g xs) = mset xs"
proof (cases xs)
  case Nil
  then show ?thesis by (simp add: shuffle_def)
next
  case (Cons x ys)
  then show ?thesis by (simp add: shuffle_def shuffle_loop_mset)
qed

lemma shuffle_length: "length (shuffle g xs) = length xs"
  using shuffle_mset [of g xs] by (metis size_mset)

lemma shuffle_nonempty: "xs \<noteq> [] \<Longrightarrow> shuffle g xs \<noteq> []"
  using shuffle_length [of g xs] by auto

lemma getitem_in_range: "0 \<le> i \<Longrightarrow> i < int (length xs) \<Longrightarrow> getitem xs i = Inr (xs ! nat i)"
  by (simp add: getitem_def)

lemma combat_state_save_combat [simp]: "combat_state (save_combat e b) = combat_state b"
  by (simp add: save_combat_def split: option.splits)

lemma characters_save_combat [simp]: "characters (save_combat e b) = characters b"
  by (simp add: save_combat_def split: option.splits)

lemma combat_state_save_characters [simp]: "combat_state (save_characters e b) = combat_state b"
  by (simp add: save_characters_def split: option.splits)

lemma characters_save_characters [simp]: "characters (save_characters e b) = characters b"
  by (simp add: save_characters_def split: option.splits)

text \<open>One \<^verbatim>\<open>!endturn\<close> in a combat whose record is in order.\<close>

lemma endturn_step:
  assumes "ongoing (combat_state b) = Some True" "turn_order (combat_state b) = Some order"
    "current_index (combat_state b) = Some (int j)" "order \<noteq> []"
  shows "snd (endturn e b) = Reply (Now_turn (order ! (Suc j mod length order)))"
    and "combat_state (fst (endturn e b)) =
          (combat_state b)\<lparr>current_index := Some (int (Suc j mod length order))\<rparr>"
proof -
  let ?i = "(int j + 1) mod int (length order)"
  have i: "?i = int (Suc j mod length order)" by (simp add: zmod_int add.commute)
  from assms(4) have "0 \<le> ?i" "?i < int (length order)" by simp_all
  then have "getitem order ?i = Inr (order ! nat ?i)" by (rule getitem_in_range)
  then have g: "getitem order ?i = Inr (order ! (Suc j mod length order))" by (simp only: i nat_int)
  from assms g show "snd (endturn e b) = Reply (Now_turn (order ! (Suc j mod length order)))"
    by (simp add: endturn_def active_def Let_def)
  from assms g show "combat_state (fst (endturn e b)) =
          (combat_state b)\<lparr>current_index := Some (int (Suc j mod length order))\<rparr>"
    by (simp add: endturn_def active_def Let_def i)
qed

lemma endturns_cycle:
  assumes "ongoing (combat_state b) = Some True" "turn_order (combat_state b) = Some order"
    "current_index (combat_state b) = Some (int j)" "j < length order"
  shows "snd (endturns es b) =
           map (\<lambda>k. Reply (Now_turn (order ! ((j + Suc k) mod length order)))) [0..<length es]
         \<and> combat_state (fst (endturns es b)) =
           (combat_state b)\<lparr>current_index := Some (int ((j + length es) mod length order))\<rparr>"
  using assms
proof (induction es arbitrary: b j)
  case Nil
  then show ?case by (cases "combat_state b") simp
next
  case (Cons e es)
  let ?n = "length order"
  let ?b = "fst (endturn e b)"
  from Cons.prems have ne: "order \<noteq> []" by auto
  note step = endturn_step [OF Cons.prems(1-3) ne, of e]
  have 1: "ongoing (combat_state ?b) = Some True" "turn_order (combat_state ?b) = Some order"
    "current_index (combat_state ?b) = Some (int (Suc j mod ?n))"
    using step(2) Cons.prems by simp_all
  have 2: "Suc j mod ?n < ?n" using ne by simp
  note ih = Cons.IH [OF 1 2]
  have "(Suc j mod ?n + Suc k) mod ?n = (Suc j + Suc k) mod ?n" for k
    by (rule mod_add_left_eq)
  then have 3: "Suc (Suc j mod ?n + k) mod ?n = Suc (Suc (j + k)) mod ?n" for k
    by simp
  have "(Suc j mod ?n + length es) mod ?n = (Suc j + length es) mod ?n"
    by (rule mod_add_left_eq)
  then have 4: "(Suc j mod ?n + length es) mod ?n = Suc (j + length es) mod ?n"
    by simp
  have 5: "[0..<Suc (length es)] = 0 # map Suc [0..<length es]"
    by (simp only: upt_conv_Cons [of 0] map_Suc_upt)
  show ?case
    using ih step by (simp add: split_beta 3 4 5 del: upt_Suc)
qed


lemma last_cycle:
  assumes "n \<noteq> 0"
  shows "last (map (\<lambda>k. f (Suc k mod n)) [0..<n]) = f 0"
proof -
  from assms obtain m where n: "n = Suc m" by (cases n) auto
  then show ?thesis by (simp add: last_map)
qed

text \<open>
  Claim C1. When no combat is going on and the characters have the non-empty sequence of
  names \<open>names\<close>, \<^verbatim>\<open>!startcombat\<close> sets the turn order to a permutation of
  \<open>names\<close> (the same multiset, the same length), the index to 0 and the combat to
  ongoing, and reports the order and its first name as acting; then the \<open>k\<close>-th
  \<^verbatim>\<open>!endturn\<close> reports the name at position \<open>k mod length\<close>, so that after exactly
  as many as the order is long the acting name is the one reported at the start and the
  index is 0 again. This holds for every random source and whether or not the saves succeed.
\<close>

theorem C1_start_then_cycle:
  assumes "\<not> active (combat_state b)"
    and "names_of (map snd (characters b)) = Inr names"
    and "names \<noteq> []"
    and "length es = length names"
  shows "\<exists>order. mset order = mset names \<and> length order = length names
           \<and> snd (startcombat e b) = Reply (Combat_begins order (order ! 0))
           \<and> combat_state (fst (startcombat e b))
               = \<lparr>ongoing = Some True, turn_order = Some order, current_index = Some 0\<rparr>
           \<and> snd (endturns es (fst (startcombat e b)))
               = map (\<lambda>k. Reply (Now_turn (order ! (Suc k mod length order)))) [0..<length order]
           \<and> last (snd (endturns es (fst (startcombat e b)))) = Reply (Now_turn (order ! 0))
           \<and> current_index (combat_state (fst (endturns es (fst (startcombat e b))))) = Some 0"
proof (intro exI conjI)
  let ?order = "shuffle (draws_of e) names"
  let ?b = "fst (startcombat e b)"
  show perm: "mset ?order = mset names" by (rule shuffle_mset)
  show len: "length ?order = length names" by (rule shuffle_length)
  from assms(3) have ne: "?order \<noteq> []" by (rule shuffle_nonempty)
  then have g: "getitem ?order 0 = Inr (?order ! 0)" by (simp add: getitem_def)
  from assms(1-3) g show reply: "snd (startcombat e b) = Reply (Combat_begins ?order (?order ! 0))"
    by (simp add: startcombat_def Let_def)
  from assms(1-3) g show st: "combat_state ?b
      = \<lparr>ongoing = Some True, turn_order = Some ?order, current_index = Some 0\<rparr>"
    by (cases "combat_state b") (simp add: startcombat_def Let_def)
  from ne have pos: "0 < length ?order" by simp
  from st have 1: "ongoing (combat_state ?b) = Some True" "turn_order (combat_state ?b) = Some ?order"
    "current_index (combat_state ?b) = Some (int 0)" by simp_all
  note cyc = endturns_cycle [OF 1 pos, of es]
  from cyc assms(4) len show outs: "snd (endturns es ?b)
      = map (\<lambda>k. Reply (Now_turn (?order ! (Suc k mod length ?order)))) [0..<length ?order]"
    by simp
  from ne have "length ?order \<noteq> 0" by simp
  then show "last (snd (endturns es ?b)) = Reply (Now_turn (?order ! 0))"
    unfolding outs by (rule last_cycle [where f = "\<lambda>i. Reply (Now_turn (?order ! i))"])
  from cyc assms(4) len st
  show "current_index (combat_state (fst (endturns es ?b))) = Some 0"
    by simp
qed

theorem C1_start_then_cycle_witness:
  "\<exists>order. mset order = mset [''Bram'', ''Zel''] \<and> length order = length [''Bram'', ''Zel'']
           \<and> snd (startcombat quiet two_characters) = Reply (Combat_begins order (order ! 0))
           \<and> combat_state (fst (startcombat quiet two_characters))
               = \<lparr>ongoing = Some True, turn_order = Some order, current_index = Some 0\<rparr>
           \<and> snd (endturns [quiet, quiet] (fst (startcombat quiet two_characters)))
               = map (\<lambda>k. Reply (Now_turn (order ! (Suc k mod length order)))) [0..<length order]
           \<and> last (snd (endturns [quiet, quiet] (fst (startcombat quiet two_characters))))
               = Reply (Now_turn (order ! 0))
           \<and> current_index (combat_state
                 (fst (endturns [quiet, quiet] (fst (startcombat quiet two_characters))))) = Some 0"
proof -
  have 1: "\<not> active (combat_state two_characters)" by code_simp
  have 2: "names_of (map snd (characters two_characters)) = Inr [''Bram'', ''Zel'']" by code_simp
  have 3: "[''Bram'', ''Zel''] \<noteq> []" by simp
  have 4: "length [quiet, quiet] = length [''Bram'', ''Zel'']" by simp
  show ?thesis by (rule C1_start_then_cycle [OF 1 2 3 4])
qed

text \<open>Every command keeps the combat record in order.\<close>

lemma combat_ok_idle: "\<not> active cs \<Longrightarrow> combat_ok cs"
  by (simp add: combat_ok_def)

lemma dnd_state: "fst (dnd e prompt b) = b"
  by (simp add: dnd_def split: sum.splits)

lemma roll_state: "fst (roll e expr b) = b"
  by (simp add: roll_def split: sum.splits)

lemma sheet_state: "fst (sheet user_id b) = b"
  by (simp add: sheet_def Let_def split: option.splits)

lemma createchar_combat: "combat_state (fst (createchar e name user_id b)) = combat_state b"
  by (simp add: createchar_def)

lemma setclass_combat: "combat_state (fst (setclass e class_name user_id b)) = combat_state b"
  by (simp add: setclass_def Let_def split: option.splits)

lemma additem_combat: "combat_state (fst (additem e item_name user_id b)) = combat_state b"
  by (simp add: additem_def Let_def split: option.splits)

lemma startcombat_ok:
  assumes "combat_ok (combat_state b)"
  shows "combat_ok (combat_state (fst (startcombat e b)))"
proof (cases "active (combat_state b)")
  case True
  with assms show ?thesis by (simp add: startcombat_def)
next
  case idle: False
  show ?thesis
  proof (cases "names_of (map snd (characters b))")
    case (Inl x)
    with idle assms show ?thesis by (simp add: startcombat_def)
  next
    case (Inr names)
    show ?thesis
    proof (cases "names = []")
      case True
      with idle Inr assms show ?thesis by (simp add: startcombat_def)
    next
      case False
      then have "shuffle (draws_of e) names \<noteq> []" by (rule shuffle_nonempty)
      with idle Inr False show ?thesis
        by (simp add: startcombat_def Let_def combat_ok_def active_def split: sum.splits)
    qed
  qed
qed

lemma endturn_ok:
  assumes "combat_ok (combat_state b)"
  shows "combat_ok (combat_state (fst (endturn e b)))"
proof (cases "active (combat_state b)")
  case False
  with assms show ?thesis by (simp add: endturn_def)
next
  case True
  with assms obtain order i where
    o: "turn_order (combat_state b) = Some order" "order \<noteq> []"
    and i: "current_index (combat_state b) = Some i"
    by (auto simp add: combat_ok_def split: option.splits)
  from o(2) have "0 \<le> (i + 1) mod int (length order)" "(i + 1) mod int (length order) < int (length order)"
    by simp_all
  with True o i show ?thesis
    by (auto simp add: endturn_def Let_def combat_ok_def active_def split: sum.splits)
qed

lemma endcombat_ok:
  "combat_ok (combat_state b) \<Longrightarrow> combat_ok (combat_state (fst (endcombat e b)))"
  by (simp add: endcombat_def combat_ok_def active_def cleared_def)

lemma on_message_ok:
  "combat_ok (combat_state b) \<Longrightarrow> combat_ok (combat_state (fst (on_message e m b)))"
  by (simp add: on_message_def Let_def dnd_state roll_state sheet_state createchar_combat
      setclass_combat additem_combat startcombat_ok endturn_ok endcombat_ok)

lemma run_ok: "combat_ok (combat_state b) \<Longrightarrow> combat_ok (combat_state (run ms b))"
  by (induction ms arbitrary: b) (auto simp add: on_message_ok)

text \<open>
  Claim C2. From a state without ongoing combat, whatever messages the handler then
  receives (among them the three combat commands), in whatever environments, the combat
  record it reaches is in order: when \<open>ongoing\<close> is true, the turn order is there and
  non-empty and the index is there, at least 0 and below the length of the order.
\<close>

theorem C2_combat_invariant:
  "\<not> active (combat_state b) \<Longrightarrow> combat_ok (combat_state (run ms b))"
  by (simp add: run_ok combat_ok_idle)

theorem C2_combat_invariant_witness:
  "\<not> active (combat_state two_characters)
   \<and> active (combat_state (run [(quiet, says 2 ''!startcombat''), (quiet, says 1 ''!endturn'')] two_characters))
   \<and> combat_ok (combat_state (run [(quiet, says 2 ''!startcombat''), (quiet, says 1 ''!endturn'')] two_characters))"
proof -
  have 1: "\<not> active (combat_state two_characters)" by code_simp
  have 2: "active (combat_state (run [(quiet, says 2 ''!startcombat''), (quiet, says 1 ''!endturn'')] two_characters))"
    by code_simp
  from 1 2 C2_combat_invariant [OF 1] show ?thesis by blast
qed

lemma update_not_Nil: "AList.update k v al \<noteq> []"
  by (cases al) auto

text \<open>
  Claim C7. While a combat is going on, \<^verbatim>\<open>!startcombat\<close> is refused with
  \<^verbatim>\<open>Combat is already in progress.\<close>; while none is, \<^verbatim>\<open>!endturn\<close> and
  \<^verbatim>\<open>!endcombat\<close> are refused with \<^verbatim>\<open>No combat is currently in progress.\<close>, and
  \<^verbatim>\<open>!startcombat\<close> with no character at all is refused with
  \<^verbatim>\<open>No characters exist to start combat.\<close>; each refusal returns the state it was
  given, the combat record and everything else, and writes no file.
\<close>

theorem C7_combat_rejections:
  "(active (combat_state b) \<longrightarrow> startcombat e b = (b, Reply Combat_already_in_progress))
   \<and> (\<not> active (combat_state b) \<longrightarrow>
        endturn e b = (b, Reply No_combat_in_progress)
        \<and> endcombat e b = (b, Reply No_combat_in_progress))
   \<and> (\<not> active (combat_state b) \<and> characters b = [] \<longrightarrow>
        startcombat e b = (b, Reply No_characters_exist))"
  by (simp add: startcombat_def endturn_def endcombat_def)

theorem C7_combat_rejections_witness:
  "active (combat_state (fst (startcombat quiet two_characters)))
   \<and> startcombat read_only (fst (startcombat quiet two_characters))
       = (fst (startcombat quiet two_characters), Reply Combat_already_in_progress)
   \<and> \<not> active (combat_state initial) \<and> characters initial = []
   \<and> endturn quiet initial = (initial, Reply No_combat_in_progress)
   \<and> endcombat quiet initial = (initial, Reply No_combat_in_progress)
   \<and> startcombat quiet initial = (initial, Reply No_characters_exist)"
proof -
  have 1: "active (combat_state (fst (startcombat quiet two_characters)))" by code_simp
  have 2: "\<not> active (combat_state initial)" by code_simp
  have 3: "characters initial = []" by code_simp
  from 1 2 3 C7_combat_rejections [of "fst (startcombat quiet two_characters)" read_only]
    C7_combat_rejections [of initial quiet]
  show ?thesis by blast
qed

text \<open>A combat can only be going on when there are characters, in every state that the
  handler reaches from the initial one; so a start with no characters is a start from
  a state without combat.\<close>

lemma createchar_staffed: "staffed b \<Longrightarrow> staffed (fst (createchar e name user_id b))"
  by (simp add: staffed_def createchar_def update_not_Nil)

lemma setclass_staffed: "staffed b \<Longrightarrow> staffed (fst (setclass e class_name user_id b))"
  by (simp add: staffed_def setclass_def Let_def update_not_Nil split: option.splits)

lemma additem_staffed: "staffed b \<Longrightarrow> staffed (fst (additem e item_name user_id b))"
  by (simp add: staffed_def additem_def Let_def update_not_Nil split: option.splits)

lemma names_of_Nil: "names_of (map snd cs) = Inr names \<Longrightarrow> names \<noteq> [] \<Longrightarrow> cs \<noteq> []"
  by (cases cs) auto

lemma startcombat_staffed:
  assumes "staffed b"
  shows "staffed (fst (startcombat e b))"
proof (cases "active (combat_state b)")
  case True
  with assms show ?thesis by (simp add: startcombat_def)
next
  case idle: False
  show ?thesis
  proof (cases "names_of (map snd (characters b))")
    case (Inl x)
    with idle assms show ?thesis by (simp add: startcombat_def)
  next
    case (Inr names)
    show ?thesis
    proof (cases "names = []")
      case True
      with idle Inr assms show ?thesis by (simp add: startcombat_def)
    next
      case False
      with Inr have "characters b \<noteq> []" by (rule names_of_Nil)
      with idle Inr False show ?thesis
        by (simp add: startcombat_def Let_def staffed_def split: sum.splits)
    qed
  qed
qed

lemma endturn_staffed: "staffed b \<Longrightarrow> staffed (fst (endturn e b))"
  by (simp add: staffed_def endturn_def Let_def active_def split: sum.splits)

lemma endcombat_staffed: "staffed b \<Longrightarrow> staffed (fst (endcombat e b))"
  by (simp add: staffed_def endcombat_def active_def cleared_def)

lemma on_message_staffed: "staffed b \<Longrightarrow> staffed (fst (on_message e m b))"
  by (simp add: on_message_def Let_def dnd_state roll_state sheet_state createchar_staffed
      setclass_staffed additem_staffed startcombat_staffed endturn_staffed endcombat_staffed)

lemma run_staffed: "staffed b \<Longrightarrow> staffed (run ms b)"
  by (induction ms arbitrary: b) (auto simp add: on_message_staffed)

lemma active_has_characters:
  "active (combat_state (run ms initial)) \<Longrightarrow> characters (run ms initial) \<noteq> []"
proof -
  have "staffed initial" by (simp add: staffed_def initial_def active_def cleared_def)
  then have "staffed (run ms initial)" by (rule run_staffed)
  then show "active (combat_state (run ms initial)) \<Longrightarrow> characters (run ms initial) \<noteq> []"
    by (simp add: staffed_def)
qed

lemma endturn_nobody:
  assumes "active (combat_state b)"
    and "turn_order (combat_state b) = None \<or> turn_order (combat_state b) = Some []"
  shows "snd (endturn e b) = Raised IndexError"
    and "current_index (combat_state (fst (endturn e b))) = Some 0"
  using assms by (auto simp add: endturn_def Let_def getitem_def)

text \<open>
  Claim C8, on the code: when \<^verbatim>\<open>!endturn\<close> arrives while \<open>ongoing\<close> is true and
  the turn order is empty, as after loading a combat file edited by hand, the handler sets
  the index to 0 and saves, and then ends in \<^verbatim>\<open>IndexError\<close> at
  \<^verbatim>\<open>turn_order[idx]\<close>: it sends no message naming who acts.
\<close>

theorem C8_endturn_nobody_raises:
  "combat_state tampered = \<lparr>ongoing = Some True, turn_order = Some [], current_index = Some 2\<rparr>
   \<and> snd (on_message quiet (says 1 ''!endturn'') tampered) = Raised IndexError
   \<and> combat_state (fst (on_message quiet (says 1 ''!endturn'') tampered))
       = \<lparr>ongoing = Some True, turn_order = Some [], current_index = Some 0\<rparr>
   \<and> combat_file (fst (on_message quiet (says 1 ''!endturn'') tampered))
       = Holds \<lparr>ongoing = Some True, turn_order = Some [], current_index = Some 0\<rparr>"
  by code_simp

subsection \<open>The character registry\<close>

lemma filter_absent_key: "k \<notin> fst ` set al \<Longrightarrow> filter (\<lambda>p. fst p = k) al = []"
  by (induction al) auto

lemma filter_update:
  "distinct (map fst al) \<Longrightarrow> filter (\<lambda>p. fst p = k) (AList.update k v al) = [(k, v)]"
  by (induction al) (auto simp add: filter_absent_key)

lemma map_of_update_other: "u \<noteq> k \<Longrightarrow> map_of (AList.update k v al) u = map_of al u"
  by (simp add: update_conv')

lemma map_of_update_same: "map_of (AList.update k v al) k = Some v"
  by (simp add: update_conv')

text \<open>
  Claim C5. For every user and every non-empty name, \<^verbatim>\<open>!createchar\<close> answers
  \<^verbatim>\<open>Character '<name>' created!\<close>, whether or not the save succeeds, and afterwards
  the user's record is the name with the empty class and no items, the records of the
  other users being as before; after a second creation by the same user, with any name,
  the dictionary holds exactly one record for that user, with the second name, the
  empty class and no items.
\<close>

theorem C5_create_replaces:
  assumes "name \<noteq> []" and "name' \<noteq> []" and "distinct (map fst (characters b))"
  shows "snd (createchar e name user_id b) = Reply (Character_created name)
    \<and> map_of (characters (fst (createchar e name user_id b))) user_id
        = Some \<lparr>c_name = Some name, c_class = Some [], c_items = Some [], c_other = []\<rparr>
    \<and> (\<forall>u. u \<noteq> user_id \<longrightarrow>
          map_of (characters (fst (createchar e name user_id b))) u = map_of (characters b) u)
    \<and> filter (\<lambda>p. fst p = user_id)
          (characters (fst (createchar e' name' user_id (fst (createchar e name user_id b)))))
        = [(user_id, \<lparr>c_name = Some name', c_class = Some [], c_items = Some [], c_other = []\<rparr>)]"
proof (intro conjI allI impI)
  show "snd (createchar e name user_id b) = Reply (Character_created name)"
    using assms(1) by (simp add: createchar_def)
  show "map_of (characters (fst (createchar e name user_id b))) user_id
        = Some \<lparr>c_name = Some name, c_class = Some [], c_items = Some [], c_other = []\<rparr>"
    using assms(1) by (simp add: createchar_def map_of_update_same)
  show "map_of (characters (fst (createchar e name user_id b))) u = map_of (characters b) u"
    if "u \<noteq> user_id" for u
    using assms(1) that by (simp add: createchar_def map_of_update_other)
  have "distinct (map fst (characters (fst (createchar e name user_id b))))"
    using assms(1,3) by (simp add: createchar_def distinct_update)
  then show "filter (\<lambda>p. fst p = user_id)
          (characters (fst (createchar e' name' user_id (fst (createchar e name user_id b)))))
        = [(user_id, \<lparr>c_name = Some name', c_class = Some [], c_items = Some [], c_other = []\<rparr>)]"
    using assms(2) by (simp add: createchar_def [of e' name'] filter_update)
qed

theorem C5_create_replaces_witness:
  "snd (createchar quiet ''Ann'' ''1'' two_characters) = Reply (Character_created ''Ann'')
    \<and> map_of (characters (fst (createchar quiet ''Ann'' ''1'' two_characters))) ''1''
        = Some \<lparr>c_name = Some ''Ann'', c_class = Some [], c_items = Some [], c_other = []\<rparr>
    \<and> map_of (characters (fst (createchar quiet ''Ann'' ''1'' two_characters))) ''2''
        = map_of (characters two_characters) ''2''
    \<and> filter (\<lambda>p. fst p = ''1'')
          (characters (fst (createchar read_only ''Cy'' ''1''
             (fst (createchar quiet ''Ann'' ''1'' two_characters)))))
        = [(''1'', \<lparr>c_name = Some ''Cy'', c_class = Some [], c_items = Some [], c_other = []\<rparr>)]"
proof -
  have 1: "''Ann'' \<noteq> []" and 2: "''Cy'' \<noteq> []" by simp_all
  have 3: "distinct (map fst (characters two_characters))" by code_simp
  have 4: "''2'' \<noteq> ''1''" by simp
  note t = C5_create_replaces [OF 1 2 3, of quiet "''1''" read_only]
  note a = t [THEN conjunct1]
    and b = t [THEN conjunct2, THEN conjunct1]
    and c = t [THEN conjunct2, THEN conjunct2, THEN conjunct1, rule_format, OF 4]
    and d = t [THEN conjunct2, THEN conjunct2, THEN conjunct2]
  show ?thesis by (rule conjI [OF a conjI [OF b conjI [OF c d]]])
qed

text \<open>
  Claim C6. For a user without a record, \<^verbatim>\<open>!additem\<close> answers
  \<^verbatim>\<open>Create a character first using !createchar.\<close> and returns the state it was given:
  no record is created and nothing is saved. For a user with a record (an object with
  at least one key, as every record that the bot writes is; the handler treats the
  object without keys as no record) and a non-empty item, the item is appended to the
  items of the record, and the answer names the item and the character.
\<close>

theorem C6_additem:
  "(map_of (characters b) user_id = None \<longrightarrow>
      additem e item_name user_id b = (b, Reply Create_character_first))
   \<and> (map_of (characters b) user_id = Some char \<and> \<not> falsy char \<and> item_name \<noteq> [] \<longrightarrow>
        map_of (characters (fst (additem e item_name user_id b))) user_id
          = Some (char\<lparr>c_items := Some ((case c_items char of None \<Rightarrow> [] | Some xs \<Rightarrow> xs) @ [item_name])\<rparr>)
        \<and> (\<forall>n. c_name char = Some n \<longrightarrow>
              snd (additem e item_name user_id b) = Reply (Added_item item_name n)))"
  by (cases "c_name char") (simp_all add: additem_def Let_def map_of_update_same)

theorem C6_additem_witness:
  "map_of (characters two_characters) ''7'' = None
   \<and> additem quiet ''Staff'' ''7'' two_characters = (two_characters, Reply Create_character_first)
   \<and> map_of (characters two_characters) ''1''
       = Some \<lparr>c_name = Some ''Bram'', c_class = Some [], c_items = Some [], c_other = []\<rparr>
   \<and> map_of (characters (fst (additem quiet ''Staff'' ''1'' two_characters))) ''1''
       = Some \<lparr>c_name = Some ''Bram'', c_class = Some [], c_items = Some [''Staff''], c_other = []\<rparr>
   \<and> snd (additem quiet ''Staff'' ''1'' two_characters) = Reply (Added_item ''Staff'' ''Bram'')"
proof -
  let ?c = "\<lparr>c_name = Some ''Bram'', c_class = Some [], c_items = Some [], c_other = []\<rparr>"
  have 1: "map_of (characters two_characters) ''7'' = None" by code_simp
  have 2: "map_of (characters two_characters) ''1'' = Some ?c" by code_simp
  have 3: "\<not> falsy ?c" by (simp add: falsy_def)
  from 1 2 3
    C6_additem [where b = two_characters and user_id = "''7''" and e = quiet
      and item_name = "''Staff''" and char = ?c]
    C6_additem [where b = two_characters and user_id = "''1''" and e = quiet
      and item_name = "''Staff''" and char = ?c]
  show ?thesis by simp
qed


lemma additem_empty_object:
  "map_of (characters b) user_id = Some char \<Longrightarrow> falsy char \<Longrightarrow>
   additem e item_name user_id b = (b, Reply Create_character_first)"
  by (simp add: additem_def)

lemma keys_update_present:
  "map_of al k = Some v \<Longrightarrow> map fst (AList.update k w al) = map fst al"
  by (auto simp add: update_keys dest: map_of_SomeD intro: rev_image_eqI)

lemma setclass_frame:
  assumes "snd (setclass e class_name user_id b) = Reply (Class_set class_name n)"
  shows "\<exists>char. map_of (characters b) user_id = Some char
      \<and> map_of (characters (fst (setclass e class_name user_id b))) user_id
          = Some (char\<lparr>c_class := Some class_name\<rparr>)
      \<and> (\<forall>u. u \<noteq> user_id \<longrightarrow>
            map_of (characters (fst (setclass e class_name user_id b))) u = map_of (characters b) u)
      \<and> map fst (characters (fst (setclass e class_name user_id b))) = map fst (characters b)
      \<and> combat_state (fst (setclass e class_name user_id b)) = combat_state b"
proof -
  from assms obtain char where c: "map_of (characters b) user_id = Some char"
    by (cases "map_of (characters b) user_id") (auto simp add: setclass_def)
  with assms have ok: "\<not> falsy char" "class_name \<noteq> []"
    by (auto simp add: setclass_def split: if_splits)
  from c ok have "characters (fst (setclass e class_name user_id b))
      = AList.update user_id (char\<lparr>c_class := Some class_name\<rparr>) (characters b)"
    by (cases "c_name char") (simp_all add: setclass_def Let_def)
  with c show ?thesis
    by (simp add: map_of_update_same map_of_update_other keys_update_present setclass_combat)
qed

lemma additem_frame:
  assumes "snd (additem e item_name user_id b) = Reply (Added_item item_name n)"
  shows "\<exists>char. map_of (characters b) user_id = Some char
      \<and> map_of (characters (fst (additem e item_name user_id b))) user_id
          = Some (char\<lparr>c_items :=
              Some ((case c_items char of None \<Rightarrow> [] | Some xs \<Rightarrow> xs) @ [item_name])\<rparr>)
      \<and> (\<forall>u. u \<noteq> user_id \<longrightarrow>
            map_of (characters (fst (additem e item_name user_id b))) u = map_of (characters b) u)
      \<and> map fst (characters (fst (additem e item_name user_id b))) = map fst (characters b)
      \<and> combat_state (fst (additem e item_name user_id b)) = combat_state b"
proof -
  from assms obtain char where c: "map_of (characters b) user_id = Some char"
    by (cases "map_of (characters b) user_id") (auto simp add: additem_def)
  with assms have ok: "\<not> falsy char" "item_name \<noteq> []"
    by (auto simp add: additem_def split: if_splits)
  from c ok have "characters (fst (additem e item_name user_id b))
      = AList.update user_id (char\<lparr>c_items :=
          Some ((case c_items char of None \<Rightarrow> [] | Some xs \<Rightarrow> xs) @ [item_name])\<rparr>) (characters b)"
    by (cases "c_name char") (simp_all add: additem_def Let_def)
  with c show ?thesis
    by (simp add: map_of_update_same map_of_update_other keys_update_present additem_combat)
qed

text \<open>
  Claim C10. When \<^verbatim>\<open>!setclass\<close> succeeds, the issuing user had a record, and afterwards
  it is that record with the class replaced: its name, items and other keys are as
  before, as are the record of every other user, the order of the dictionary and the
  combat record. Likewise when \<^verbatim>\<open>!additem\<close> succeeds, the record is the one before
  with the item appended to its items and nothing else changed.
\<close>

theorem C10_frame:
  "(snd (setclass e class_name user_id b) = Reply (Class_set class_name n) \<longrightarrow>
     (\<exists>char. map_of (characters b) user_id = Some char
      \<and> map_of (characters (fst (setclass e class_name user_id b))) user_id
          = Some (char\<lparr>c_class := Some class_name\<rparr>)
      \<and> (\<forall>u. u \<noteq> user_id \<longrightarrow>
            map_of (characters (fst (setclass e class_name user_id b))) u = map_of (characters b) u)
      \<and> map fst (characters (fst (setclass e class_name user_id b))) = map fst (characters b)
      \<and> combat_state (fst (setclass e class_name user_id b)) = combat_state b))
   \<and> (snd (additem e item_name user_id b) = Reply (Added_item item_name n') \<longrightarrow>
     (\<exists>char. map_of (characters b) user_id = Some char
      \<and> map_of (characters (fst (additem e item_name user_id b))) user_id
          = Some (char\<lparr>c_items :=
              Some ((case c_items char of None \<Rightarrow> [] | Some xs \<Rightarrow> xs) @ [item_name])\<rparr>)
      \<and> (\<forall>u. u \<noteq> user_id \<longrightarrow>
            map_of (characters (fst (additem e item_name user_id b))) u = map_of (characters b) u)
      \<and> map fst (characters (fst (additem e item_name user_id b))) = map fst (characters b)
      \<and> combat_state (fst (additem e item_name user_id b)) = combat_state b))"
proof (intro conjI impI)
  assume "snd (setclass e class_name user_id b) = Reply (Class_set class_name n)"
  then show "\<exists>char. map_of (characters b) user_id = Some char
      \<and> map_of (characters (fst (setclass e class_name user_id b))) user_id
          = Some (char\<lparr>c_class := Some class_name\<rparr>)
      \<and> (\<forall>u. u \<noteq> user_id \<longrightarrow>
            map_of (characters (fst (setclass e class_name user_id b))) u = map_of (characters b) u)
      \<and> map fst (characters (fst (setclass e class_name user_id b))) = map fst (characters b)
      \<and> combat_state (fst (setclass e class_name user_id b)) = combat_state b"
    by (rule setclass_frame)
next
  assume "snd (additem e item_name user_id b) = Reply (Added_item item_name n')"
  then show "\<exists>char. map_of (characters b) user_id = Some char
      \<and> map_of (characters (fst (additem e item_name user_id b))) user_id
          = Some (char\<lparr>c_items :=
              Some ((case c_items char of None \<Rightarrow> [] | Some xs \<Rightarrow> xs) @ [item_name])\<rparr>)
      \<and> (\<forall>u. u \<noteq> user_id \<longrightarrow>
            map_of (characters (fst (additem e item_name user_id b))) u = map_of (characters b) u)
      \<and> map fst (characters (fst (additem e item_name user_id b))) = map fst (characters b)
      \<and> combat_state (fst (additem e item_name user_id b)) = combat_state b"
    by (rule additem_frame)
qed

theorem C10_frame_witness:
  "snd (setclass quiet ''Wizard'' ''1'' two_characters) = Reply (Class_set ''Wizard'' ''Bram'')
   \<and> snd (additem quiet ''Staff'' ''1'' two_characters) = Reply (Added_item ''Staff'' ''Bram'')
   \<and> (\<exists>char. map_of (characters two_characters) ''1'' = Some char
      \<and> map_of (characters (fst (setclass quiet ''Wizard'' ''1'' two_characters))) ''1''
          = Some (char\<lparr>c_class := Some ''Wizard''\<rparr>)
      \<and> (\<forall>u. u \<noteq> ''1'' \<longrightarrow>
            map_of (characters (fst (setclass quiet ''Wizard'' ''1'' two_characters))) u
            = map_of (characters two_characters) u)
      \<and> map fst (characters (fst (setclass quiet ''Wizard'' ''1'' two_characters)))
          = map fst (characters two_characters)
      \<and> combat_state (fst (setclass quiet ''Wizard'' ''1'' two_characters))
          = combat_state two_characters)
   \<and> (\<exists>char. map_of (characters two_characters) ''1'' = Some char
      \<and> map_of (characters (fst (additem quiet ''Staff'' ''1'' two_characters))) ''1''
          = Some (char\<lparr>c_items :=
              Some ((case c_items char of None \<Rightarrow> [] | Some xs \<Rightarrow> xs) @ [''Staff''])\<rparr>)
      \<and> (\<forall>u. u \<noteq> ''1'' \<longrightarrow>
            map_of (characters (fst (additem quiet ''Staff'' ''1'' two_characters))) u
            = map_of (characters two_characters) u)
      \<and> map fst (characters (fst (additem quiet ''Staff'' ''1'' two_characters)))
          = map fst (characters two_characters)
      \<and> combat_state (fst (additem quiet ''Staff'' ''1'' two_characters))
          = combat_state two_characters)"
proof -
  have 1: "snd (setclass quiet ''Wizard'' ''1'' two_characters) = Reply (Class_set ''Wizard'' ''Bram'')"
    by code_simp
  have 2: "snd (additem quiet ''Staff'' ''1'' two_characters) = Reply (Added_item ''Staff'' ''Bram'')"
    by code_simp
  note 3 = C10_frame [where e = quiet and b = two_characters and user_id = "''1''"
      and class_name = "''Wizard''" and n = "''Bram''" and item_name = "''Staff''" and n' = "''Bram''"]
  have 4: "\<exists>char. map_of (characters two_characters) ''1'' = Some char
      \<and> map_of (characters (fst (setclass quiet ''Wizard'' ''1'' two_characters))) ''1''
          = Some (char\<lparr>c_class := Some ''Wizard''\<rparr>)
      \<and> (\<forall>u. u \<noteq> ''1'' \<longrightarrow>
            map_of (characters (fst (setclass quiet ''Wizard'' ''1'' two_characters))) u
            = map_of (characters two_characters) u)
      \<and> map fst (characters (fst (setclass quiet ''Wizard'' ''1'' two_characters)))
          = map fst (characters two_characters)
      \<and> combat_state (fst (setclass quiet ''Wizard'' ''1'' two_characters))
          = combat_state two_characters"
    by (rule 3 [THEN conjunct1, THEN mp, OF 1])
  have 5: "\<exists>char. map_of (characters two_characters) ''1'' = Some char
      \<and> map_of (characters (fst (additem quiet ''Staff'' ''1'' two_characters))) ''1''
          = Some (char\<lparr>c_items :=
              Some ((case c_items char of None \<Rightarrow> [] | Some xs \<Rightarrow> xs) @ [''Staff''])\<rparr>)
      \<and> (\<forall>u. u \<noteq> ''1'' \<longrightarrow>
            map_of (characters (fst (additem quiet ''Staff'' ''1'' two_characters))) u
            = map_of (characters two_characters) u)
      \<and> map fst (characters (fst (additem quiet ''Staff'' ''1'' two_characters)))
          = map fst (characters two_characters)
      \<and> combat_state (fst (additem quiet ''Staff'' ''1'' two_characters))
          = combat_state two_characters"
    by (rule 3 [THEN conjunct2, THEN mp, OF 2])
  show ?thesis by (rule conjI [OF 1 conjI [OF 2 conjI [OF 4 5]]])
qed

subsection \<open>Loading and saving\<close>

lemma load_characters_combat [simp]:
  "combat_state (load_characters b) = combat_state b"
  "combat_file (load_characters b) = combat_file b"
  by (simp_all add: load_characters_def split: stored.splits)

lemma load_combat_characters [simp]:
  "characters (load_combat b) = characters b"
  by (simp add: load_combat_def split: stored.splits)

lemma console_load_combat: "set (console b) \<subseteq> set (console (load_combat b))"
  by (auto simp add: load_combat_def split: stored.splits)

text \<open>
  Claim C9 says that loading gives the empty mapping when the file is absent. The code
  skips a file that is absent, so the document in memory stays as it is: after a
  creation that could not be saved, the file is absent and loading again still has the
  character.
\<close>

theorem C9_load_absent_counterexample:
  "\<not> (character_file unsaved = Absent \<longrightarrow> characters (load_data unsaved) = [])"
  by code_simp

text \<open>
  Claim C9, as the code has it. For each of the two documents: when its file is absent,
  loading leaves the document in memory as it is, which at the start of the process is
  the empty mapping; when the file is there but fails to open or to parse, loading
  prints the failure and sets the document to the empty mapping; a save that fails
  prints the failure, leaves the documents in memory alone and returns. Loading and
  saving are total: none of them ends in an exception, every failure of a file being a
  case of the model.
\<close>

theorem C9_load_save:
  "(character_file b = Absent \<longrightarrow> characters (load_data b) = characters b)
   \<and> (combat_file b = Absent \<longrightarrow> combat_state (load_data b) = combat_state b)
   \<and> load_data initial = initial
   \<and> (character_file b = Unreadable \<longrightarrow>
        characters (load_data b) = []
        \<and> Error_loading CHARACTER_FILE \<in> set (console (load_data b)))
   \<and> (combat_file b = Unreadable \<longrightarrow>
        combat_state (load_data b) = cleared
        \<and> Error_loading COMBAT_FILE \<in> set (console (load_data b)))
   \<and> (characters_write e = Some f \<longrightarrow>
        save_characters e b = b\<lparr>character_file := f, console := console b @ [Error_saving_characters]\<rparr>)
   \<and> (combat_write e = Some f' \<longrightarrow>
        save_combat e b = b\<lparr>combat_file := f', console := console b @ [Error_saving_combat]\<rparr>)"
proof (intro conjI impI)
  show "characters (load_data b) = characters b" if "character_file b = Absent"
    using that by (simp add: load_data_def) (simp add: load_characters_def)
  show "combat_state (load_data b) = combat_state b" if "combat_file b = Absent"
    using that by (simp add: load_data_def load_combat_def)
  show "load_data initial = initial"
    by (simp add: load_data_def load_characters_def load_combat_def initial_def)
  show "characters (load_data b) = []" if "character_file b = Unreadable"
    using that by (simp add: load_data_def) (simp add: load_characters_def)
  show "Error_loading CHARACTER_FILE \<in> set (console (load_data b))" if "character_file b = Unreadable"
  proof -
    from that have "Error_loading CHARACTER_FILE \<in> set (console (load_characters b))"
      by (simp add: load_characters_def)
    then show ?thesis
      using console_load_combat [of "load_characters b"] by (auto simp add: load_data_def)
  qed
  show "combat_state (load_data b) = cleared" if "combat_file b = Unreadable"
    using that by (simp add: load_data_def load_combat_def)
  show "Error_loading COMBAT_FILE \<in> set (console (load_data b))" if "combat_file b = Unreadable"
    using that by (simp add: load_data_def load_combat_def)
  show "save_characters e b = b\<lparr>character_file := f, console := console b @ [Error_saving_characters]\<rparr>"
    if "characters_write e = Some f"
    using that by (simp add: save_characters_def)
  show "save_combat e b = b\<lparr>combat_file := f', console := console b @ [Error_saving_combat]\<rparr>"
    if "combat_write e = Some f'"
    using that by (simp add: save_combat_def)
qed

theorem C9_load_save_witness:
  "character_file unsaved = Absent \<and> combat_file unsaved = Absent
   \<and> characters (load_data unsaved) = characters unsaved
   \<and> combat_state (load_data unsaved) = combat_state unsaved
   \<and> character_file corrupt = Unreadable \<and> combat_file corrupt = Unreadable
   \<and> characters (load_data corrupt) = [] \<and> combat_state (load_data corrupt) = cleared
   \<and> Error_loading CHARACTER_FILE \<in> set (console (load_data corrupt))
   \<and> Error_loading COMBAT_FILE \<in> set (console (load_data corrupt))
   \<and> characters_write read_only = Some Absent \<and> combat_write read_only = Some Absent
   \<and> save_characters read_only unsaved
       = unsaved\<lparr>character_file := Absent, console := console unsaved @ [Error_saving_characters]\<rparr>
   \<and> save_combat read_only unsaved
       = unsaved\<lparr>combat_file := Absent, console := console unsaved @ [Error_saving_combat]\<rparr>"
proof -
  have 1: "character_file unsaved = Absent" "combat_file unsaved = Absent" by code_simp+
  have 2: "character_file corrupt = Unreadable" "combat_file corrupt = Unreadable" by code_simp+
  have 3: "characters_write read_only = Some Absent" "combat_write read_only = Some Absent"
    by code_simp+
  from 1 2 3
    C9_load_save [where b = unsaved and e = read_only and f = Absent and f' = Absent]
    C9_load_save [where b = corrupt and e = read_only and f = Absent and f' = Absent]
  show ?thesis by simp
qed

subsection \<open>The dispatch of the handler\<close>

text \<open>The commands do not overlap: a text that starts with one of them starts with no
  other, so the handler runs the branch of the command that the text starts with.\<close>

lemma startswith_clash:
  assumes "startswith c p"
    and "take (min (length p) (length q)) p \<noteq> take (min (length p) (length q)) q"
  shows "\<not> startswith c q"
proof
  assume "startswith c q"
  with assms(1) have p: "take (length p) c = p" and q: "take (length q) c = q"
    by (simp_all add: startswith_def)
  let ?m = "min (length p) (length q)"
  have "take ?m p = take ?m (take (length p) c)" by (simp only: p)
  also have "\<dots> = take ?m c" by (simp add: min.absorb1)
  also have "\<dots> = take ?m (take (length q) c)" by (simp add: min.absorb1)
  also have "\<dots> = take ?m q" by (simp only: q)
  finally show False using assms(2) by simp
qed


lemma dispatch_roll:
  assumes "\<not> from_self m" and "startswith (strip (text_of m)) ''!roll''"
  shows "on_message e m b = roll e (strip (drop 5 (strip (text_of m)))) b"
proof -
  note no = startswith_clash [OF assms(2)]
  have n0: "\<not> startswith (strip (text_of m)) ''!dnd''" by (rule no) simp
  show ?thesis using assms n0 by (simp add: on_message_def Let_def del: length_Cons list.size)
qed

lemma dispatch_createchar:
  assumes "\<not> from_self m" and "startswith (strip (text_of m)) ''!createchar''"
  shows "on_message e m b = createchar e (strip (drop (length ''!createchar'') (strip (text_of m)))) (py_str (author_id m)) b"
proof -
  note no = startswith_clash [OF assms(2)]
  have n0: "\<not> startswith (strip (text_of m)) ''!dnd''" by (rule no) simp
  have n1: "\<not> startswith (strip (text_of m)) ''!roll''" by (rule no) simp
  show ?thesis using assms n0 n1 by (simp add: on_message_def Let_def del: length_Cons list.size)
qed

lemma dispatch_sheet:
  assumes "\<not> from_self m" and "startswith (strip (text_of m)) ''!sheet''"
  shows "on_message e m b = sheet (py_str (author_id m)) b"
proof -
  note no = startswith_clash [OF assms(2)]
  have n0: "\<not> startswith (strip (text_of m)) ''!dnd''" by (rule no) simp
  have n1: "\<not> startswith (strip (text_of m)) ''!roll''" by (rule no) simp
  have n2: "\<not> startswith (strip (text_of m)) ''!createchar''" by (rule no) simp
  show ?thesis using assms n0 n1 n2 by (simp add: on_message_def Let_def del: length_Cons list.size)
qed

lemma dispatch_setclass:
  assumes "\<not> from_self m" and "startswith (strip (text_of m)) ''!setclass''"
  shows "on_message e m b = setclass e (strip (drop (length ''!setclass'') (strip (text_of m)))) (py_str (author_id m)) b"
proof -
  note no = startswith_clash [OF assms(2)]
  have n0: "\<not> startswith (strip (text_of m)) ''!dnd''" by (rule no) simp
  have n1: "\<not> startswith (strip (text_of m)) ''!roll''" by (rule no) simp
  have n2: "\<not> startswith (strip (text_of m)) ''!createchar''" by (rule no) simp
  have n3: "\<not> startswith (strip (text_of m)) ''!sheet''" by (rule no) simp
  show ?thesis using assms n0 n1 n2 n3 by (simp add: on_message_def Let_def del: length_Cons list.size)
qed

lemma dispatch_additem:
  assumes "\<not> from_self m" and "startswith (strip (text_of m)) ''!additem''"
  shows "on_message e m b = additem e (strip (drop (length ''!additem'') (strip (text_of m)))) (py_str (author_id m)) b"
proof -
  note no = startswith_clash [OF assms(2)]
  have n0: "\<not> startswith (strip (text_of m)) ''!dnd''" by (rule no) simp
  have n1: "\<not> startswith (strip (text_of m)) ''!roll''" by (rule no) simp
  have n2: "\<not> startswith (strip (text_of m)) ''!createchar''" by (rule no) simp
  have n3: "\<not> startswith (strip (text_of m)) ''!sheet''" by (rule no) simp
  have n4: "\<not> startswith (strip (text_of m)) ''!setclass''" by (rule no) simp
  show ?thesis using assms n0 n1 n2 n3 n4 by (simp add: on_message_def Let_def del: length_Cons list.size)
qed

lemma dispatch_startcombat:
  assumes "\<not> from_self m" and "startswith (strip (text_of m)) ''!startcombat''"
  shows "on_message e m b = startcombat e b"
proof -
  note no = startswith_clash [OF assms(2)]
  have n0: "\<not> startswith (strip (text_of m)) ''!dnd''" by (rule no) simp
  have n1: "\<not> startswith (strip (text_of m)) ''!roll''" by (rule no) simp
  have n2: "\<not> startswith (strip (text_of m)) ''!createchar''" by (rule no) simp
  have n3: "\<not> startswith (strip (text_of m)) ''!sheet''" by (rule no) simp
  have n4: "\<not> startswith (strip (text_of m)) ''!setclass''" by (rule no) simp
  have n5: "\<not> startswith (strip (text_of m)) ''!additem''" by (rule no) simp
  show ?thesis using assms n0 n1 n2 n3 n4 n5 by (simp add: on_message_def Let_def del: length_Cons list.size)
qed

lemma dispatch_endturn:
  assumes "\<not> from_self m" and "startswith (strip (text_of m)) ''!endturn''"
  shows "on_message e m b = endturn e b"
proof -
  note no = startswith_clash [OF assms(2)]
  have n0: "\<not> startswith (strip (text_of m)) ''!dnd''" by (rule no) simp
  have n1: "\<not> startswith (strip (text_of m)) ''!roll''" by (rule no) simp
  have n2: "\<not> startswith (strip (text_of m)) ''!createchar''" by (rule no) simp
  have n3: "\<not> startswith (strip (text_of m)) ''!sheet''" by (rule no) simp
  have n4: "\<not> startswith (strip (text_of m)) ''!setclass''" by (rule no) simp
  have n5: "\<not> startswith (strip (text_of m)) ''!additem''" by (rule no) simp
  have n6: "\<not> startswith (strip (text_of m)) ''!startcombat''" by (rule no) simp
  show ?thesis using assms n0 n1 n2 n3 n4 n5 n6 by (simp add: on_message_def Let_def del: length_Cons list.size)
qed

lemma dispatch_endcombat:
  assumes "\<not> from_self m" and "startswith (strip (text_of m)) ''!endcombat''"
  shows "on_message e m b = endcombat e b"
proof -
  note no = startswith_clash [OF assms(2)]
  have n0: "\<not> startswith (strip (text_of m)) ''!dnd''" by (rule no) simp
  have n1: "\<not> startswith (strip (text_of m)) ''!roll''" by (rule no) simp
  have n2: "\<not> startswith (strip (text_of m)) ''!createchar''" by (rule no) simp
  have n3: "\<not> startswith (strip (text_of m)) ''!sheet''" by (rule no) simp
  have n4: "\<not> startswith (strip (text_of m)) ''!setclass''" by (rule no) simp
  have n5: "\<not> startswith (strip (text_of m)) ''!additem''" by (rule no) simp
  have n6: "\<not> startswith (strip (text_of m)) ''!startcombat''" by (rule no) simp
  have n7: "\<not> startswith (strip (text_of m)) ''!endturn''" by (rule no) simp
  show ?thesis using assms n0 n1 n2 n3 n4 n5 n6 n7 by (simp add: on_message_def Let_def del: length_Cons list.size)
qed

subsection \<open>The roller succeeds exactly on the shape\<close>

text \<open>A text that \<^verbatim>\<open>int\<close> reads has blanks, digits, underscores and signs only, so
  no letter to split at; hence every expression of the shape is rolled.\<close>

lemma digits_value_chars:
  "digits_value acc cs = Some v \<Longrightarrow> c \<in> set cs \<Longrightarrow> is_digit c \<or> ord c = 95"
  by (induction acc cs rule: digits_value.induct) (auto split: if_splits)

lemma unsigned_literal_chars:
  "unsigned_literal cs = Some v \<Longrightarrow> c \<in> set cs \<Longrightarrow> is_digit c \<or> ord c = 95"
  by (cases cs) (auto simp add: unsigned_literal_def split: if_splits dest: digits_value_chars)

lemma dropWhile_keeps: "c \<in> set s \<Longrightarrow> P c \<or> c \<in> set (dropWhile P s)"
  by (induction s) auto

lemma int_literal_chars:
  assumes "int_literal s = Some n" and "c \<in> set s"
  shows "int_blank c \<or> is_digit c \<or> ord c = 95 \<or> ord c = 45 \<or> ord c = 43"
proof -
  define t where "t = rev (dropWhile int_blank (rev (dropWhile int_blank s)))"
  have "int_blank c \<or> c \<in> set t"
    using dropWhile_keeps [OF assms(2), of int_blank]
      dropWhile_keeps [of c "rev (dropWhile int_blank s)" int_blank]
    by (auto simp add: t_def)
  moreover have "is_digit c \<or> ord c = 95 \<or> ord c = 45 \<or> ord c = 43" if "c \<in> set t"
  proof (cases t)
    case Nil
    with that show ?thesis by simp
  next
    case (Cons x xs)
    from assms(1) have "int_literal s =
      (case t of [] \<Rightarrow> None
       | c # cs \<Rightarrow>
           if ord c = 45 then map_option (\<lambda>n. - int n) (unsigned_literal cs)
           else if ord c = 43 then map_option int (unsigned_literal cs)
           else map_option int (unsigned_literal t))"
      by (simp only: int_literal_def Let_def t_def)
    with assms(1) Cons that show ?thesis
      by (auto split: if_splits dest: unsigned_literal_chars)
  qed
  ultimately show ?thesis by blast
qed

lemma py_int_no_d:
  assumes "py_int s = Inr n"
  shows "CHR ''d'' \<notin> set (lower s)"
proof
  assume "CHR ''d'' \<in> set (lower s)"
  then obtain c where c: "c \<in> set s" "lower_char c = CHR ''d''"
    by (auto simp add: lower_def)
  from c(2) have "c = CHR ''d'' \<or> c = CHR ''D''" by (rule lower_char_d)
  then have "ord c = 100 \<or> ord c = 68" by auto
  moreover from assms have "int_literal s = Some n" by (simp add: py_int_Inr_iff)
  then have "int_blank c \<or> is_digit c \<or> ord c = 95 \<or> ord c = 45 \<or> ord c = 43"
    using c(1) by (rule int_literal_chars)
  ultimately show False by (auto simp add: int_blank_def is_digit_def)
qed

lemma matches_parse_succeeds:
  assumes "spec_matches_NdM s"
  shows "\<exists>rolls. parse_dice_expression g s = Inr rolls"
proof -
  from assms obtain i where i: "i < length s" "s ! i = CHR ''d'' \<or> s ! i = CHR ''D''"
    "parses_as_positive (take i s)" "parses_as_positive (drop (Suc i) s)"
    by (auto simp add: spec_matches_NdM_def)
  let ?a = "take i s" and ?b = "drop (Suc i) s"
  from i(3) obtain n where n: "py_int ?a = Inr n" "0 < n"
    by (auto simp add: parses_as_positive_def split: sum.splits)
  from i(4) obtain m where m: "py_int ?b = Inr m" "0 < m"
    by (auto simp add: parses_as_positive_def split: sum.splits)
  from i(1) have s: "s = ?a @ s ! i # ?b" by (rule id_take_nth_drop)
  from i(2) have "lower_char (s ! i) = CHR ''d''" by (auto simp add: lower_char_def char_of_eq_iff_ord)
  with s have "lower s = lower ?a @ CHR ''d'' # lower ?b"
    by (metis lower_def list.simps(9) map_append)
  moreover have "CHR ''d'' \<notin> set (lower ?a)" "CHR ''d'' \<notin> set (lower ?b)"
    using py_int_no_d [OF n(1)] py_int_no_d [OF m(1)] by simp_all
  ultimately have "split (CHR ''d'') (lower s) = [lower ?a, lower ?b]"
    by (simp add: split_at_sep split_no_sep)
  moreover from n(1) m(1) have "py_int (lower ?a) = Inr n" "py_int (lower ?b) = Inr m"
    by (simp_all add: py_int_lower_Inr)
  ultimately show ?thesis
    using n(2) m(2) by (simp add: parse_dice_expression_def)
qed

lemma parse_succeeds_iff: "(\<exists>rolls. parse_dice_expression g s = Inr rolls) \<longleftrightarrow> spec_matches_NdM s"
  using matches_parse_succeeds parse_success_matches by blast

end
